theory Spec2Isabelle
  imports Complex_Main "HOL-Library.Sublist"
begin

section \<open>Embedding of \<open>src/reader/record_twomemory.py\<close>\<close>

text \<open>
  Python integers are unbounded and are modelled by \<open>int\<close>; the length of a list is
  \<open>int (length xs)\<close>. A Python \<open>str\<close> is a sequence of code points and is modelled by
  a list of code points (\<open>nat\<close>), because the reader tests for the code point
  \<open>0x202F\<close>, which an 8-bit \<open>char\<close> cannot hold. Exceptions are values of
  \<open>py_error\<close>; a loop that may run forever is a \<open>partial_function\<close> in the option
  monad, where \<open>None\<close> is "does not return". A Python \<open>float\<close> is a value of
  \<open>py_float\<close>, and every operation on floats rounds its result as the IEEE 754 double
  arithmetic of Python does.
\<close>

subsection \<open>The sliding window over the document (lines 340-351)\<close>

text \<open>\<open>_DocSpan = collections.namedtuple("DocSpan", ["start", "length"])\<close>\<close>

record DocSpan =
  start :: int
  span_length :: int

text \<open>
  The \<open>while\<close> loop of \<open>Examples_To_Features_Converter.__call__\<close>. \<open>n\<close> is
  \<open>len(all_doc_tokens)\<close>. The first \<open>Some\<close> is the \<open>break\<close>, the second the exit
  through the loop condition.
\<close>

partial_function (option) doc_spans_loop ::
  "int \<Rightarrow> int \<Rightarrow> int \<Rightarrow> int \<Rightarrow> DocSpan list \<Rightarrow> DocSpan list option" where
  "doc_spans_loop n max_tokens_for_doc doc_stride start_offset doc_spans =
    (if start_offset < n then
       (let length0 = n - start_offset;
            len = (if length0 > max_tokens_for_doc then max_tokens_for_doc else length0);
            doc_spans' = doc_spans @ [\<lparr>start = start_offset, span_length = len\<rparr>]
        in if start_offset + len = n then Some doc_spans'
           else doc_spans_loop n max_tokens_for_doc doc_stride
                  (start_offset + min len doc_stride) doc_spans')
     else Some doc_spans)"

definition build_doc_spans :: "'a list \<Rightarrow> int \<Rightarrow> int \<Rightarrow> DocSpan list option" where
  "build_doc_spans all_doc_tokens max_tokens_for_doc doc_stride =
     doc_spans_loop (int (length all_doc_tokens)) max_tokens_for_doc doc_stride 0 []"

text \<open>\<open>end = doc_span.start + doc_span.length - 1\<close>, as lines 421 and 550 compute it.\<close>

definition span_end :: "DocSpan \<Rightarrow> int" where
  "span_end d = start d + span_length d - 1"

text \<open>
  A position lies in a span when neither \<open>continue\<close> of \<open>_check_is_max_context\<close>
  (lines 551-554) fires.
\<close>

definition in_span :: "DocSpan \<Rightarrow> int \<Rightarrow> bool" where
  "in_span d p = (\<not> p < start d \<and> \<not> p > span_end d)"

text \<open>Two neighbouring spans: the later one starts further right, and leaves no gap.\<close>

definition overlap_step :: "DocSpan \<Rightarrow> DocSpan \<Rightarrow> bool" where
  "overlap_step a b = (start a < start b \<and> start b \<le> span_end a + 1)"

subsection \<open>Exceptions\<close>

datatype py_error =
  IndexError | KeyError | TypeError | AssertionError | AttributeError | ValueError | OverflowError

subsection \<open>Python floats\<close>

text \<open>
  A Python \<open>float\<close> is an IEEE 754 binary64 value: \<open>Finite m e\<close> stands for
  \<open>m * 2 ^ e\<close>, beside the two infinities and NaN. Results are rounded to a 53-bit
  significand, to the nearest value and to the even one on a tie, and become an infinity
  from \<open>2 ^ 1024\<close> on.
\<close>

datatype py_float = Finite int int | PosInf | NegInf | NaN

text \<open>The number of binary digits of a natural number (\<open>int.bit_length\<close>).\<close>

fun bit_length :: "nat \<Rightarrow> nat" where
  "bit_length n = (if n = 0 then 0 else Suc (bit_length (n div 2)))"

text \<open>Rounding the exact value \<open>m * 2 ^ e\<close> to a float.\<close>

definition round53 :: "int \<Rightarrow> int \<Rightarrow> py_float" where
  "round53 m e =
     (let a = \<bar>m\<bar>;
          k = int (bit_length (nat a)) - 53;
          q = (if k \<le> 0 then a
               else (let q0 = a div 2 ^ nat k; r = a mod 2 ^ nat k; h = 2 ^ nat (k - 1)
                     in if r > h \<or> (r = h \<and> odd q0) then q0 + 1 else q0));
          e' = (if k \<le> 0 then e else e + k)
      in if int (bit_length (nat q)) + e' > 1024 then (if m < 0 then NegInf else PosInf)
         else Finite (if m < 0 then - q else q) e')"

text \<open>The value of a finite float.\<close>

definition float_value :: "int \<Rightarrow> int \<Rightarrow> rat" where
  "float_value m e = of_int m * 2 powi e"

text \<open>\<open>a > b\<close> on floats: false when either side is NaN.\<close>

fun fl_gt :: "py_float \<Rightarrow> py_float \<Rightarrow> bool" where
  "fl_gt NaN b = False"
| "fl_gt a NaN = False"
| "fl_gt PosInf PosInf = False"
| "fl_gt PosInf b = True"
| "fl_gt a PosInf = False"
| "fl_gt NegInf b = False"
| "fl_gt (Finite m e) NegInf = True"
| "fl_gt (Finite m1 e1) (Finite m2 e2) = (float_value m1 e1 > float_value m2 e2)"

fun fl_neg :: "py_float \<Rightarrow> py_float" where
  "fl_neg (Finite m e) = Finite (- m) e"
| "fl_neg PosInf = NegInf"
| "fl_neg NegInf = PosInf"
| "fl_neg NaN = NaN"

text \<open>
  \<open>a + b\<close> on floats. The exact sum of two finite floats is a multiple of the smaller
  of their units, so rounding it to 53 bits is all that happens to it.
\<close>

fun fl_add :: "py_float \<Rightarrow> py_float \<Rightarrow> py_float" where
  "fl_add NaN b = NaN"
| "fl_add a NaN = NaN"
| "fl_add PosInf NegInf = NaN"
| "fl_add NegInf PosInf = NaN"
| "fl_add PosInf b = PosInf"
| "fl_add NegInf b = NegInf"
| "fl_add a PosInf = PosInf"
| "fl_add a NegInf = NegInf"
| "fl_add (Finite m1 e1) (Finite m2 e2) =
     (let e = min e1 e2 in round53 (m1 * 2 ^ nat (e1 - e) + m2 * 2 ^ nat (e2 - e)) e)"

definition fl_sub :: "py_float \<Rightarrow> py_float \<Rightarrow> py_float" where
  "fl_sub a b = fl_add a (fl_neg b)"

text \<open>
  An \<open>int\<close> operand of a float operation is converted to a float; an \<open>int\<close> that rounds
  to \<open>2 ^ 1024\<close> or more raises \<open>OverflowError\<close>.
\<close>

definition py_float_of_int :: "int \<Rightarrow> py_error + py_float" where
  "py_float_of_int n =
     (case round53 n 0 of
        Finite m e \<Rightarrow> Inr (Finite m e)
      | _ \<Rightarrow> Inl OverflowError)"

text \<open>
  \<open>0.01 * n\<close> for an \<open>int\<close> \<open>n\<close>. The literal \<open>0.01\<close> is the float
  \<open>5764607523034235 * 2 ^ -59\<close>; its product with a converted \<open>int\<close> is zero or at
  least \<open>0.01\<close> in size, so rounding to 53 bits is all that happens to it.
\<close>

definition float_001_times :: "int \<Rightarrow> py_error + py_float" where
  "float_001_times n =
     (case round53 n 0 of
        Finite m e \<Rightarrow> Inr (round53 (5764607523034235 * m) (e - 59))
      | _ \<Rightarrow> Inl OverflowError)"

subsection \<open>\<open>_check_is_max_context\<close> (lines 528-563)\<close>

text \<open>
  \<open>score = min(num_left_context, num_right_context) + 0.01 * doc_span.length\<close>, a float:
  the product is computed first, then the \<open>int\<close> on the left is converted and added.
\<close>

definition span_score :: "DocSpan \<Rightarrow> int \<Rightarrow> py_error + py_float" where
  "span_score doc_span position =
     (let end = span_end doc_span;
          num_left_context = position - start doc_span;
          num_right_context = end - position
      in case float_001_times (span_length doc_span) of
           Inl e \<Rightarrow> Inl e
         | Inr weighted_length \<Rightarrow>
             (case py_float_of_int (min num_left_context num_right_context) of
                Inl e \<Rightarrow> Inl e
              | Inr context \<Rightarrow> Inr (fl_add context weighted_length)))"

text \<open>
  One iteration of the \<open>for\<close> loop on the state \<open>(best_score, best_span_index)\<close>, both
  \<open>None\<close> at the start; the two early exits are the two \<open>continue\<close>s.
\<close>

fun max_context_step ::
  "int \<Rightarrow> py_float option \<times> nat option \<Rightarrow> nat \<times> DocSpan \<Rightarrow>
   py_error + (py_float option \<times> nat option)" where
  "max_context_step position (best_score, best_span_index) (span_index, doc_span) =
     (if position < start doc_span then Inr (best_score, best_span_index)
      else if position > span_end doc_span then Inr (best_score, best_span_index)
      else (case span_score doc_span position of
              Inl e \<Rightarrow> Inl e
            | Inr score \<Rightarrow>
                (case best_score of
                   None \<Rightarrow> Inr (Some score, Some span_index)
                 | Some b \<Rightarrow>
                     if fl_gt score b then Inr (Some score, Some span_index)
                     else Inr (best_score, best_span_index))))"

fun max_context_loop ::
  "int \<Rightarrow> (nat \<times> DocSpan) list \<Rightarrow> py_float option \<times> nat option \<Rightarrow>
   py_error + (py_float option \<times> nat option)" where
  "max_context_loop position [] st = Inr st"
| "max_context_loop position (x # rest) st =
     (case max_context_step position st x of
        Inl e \<Rightarrow> Inl e
      | Inr st' \<Rightarrow> max_context_loop position rest st')"

text \<open>\<open>return cur_span_index == best_span_index\<close>\<close>

definition check_is_max_context :: "DocSpan list \<Rightarrow> nat \<Rightarrow> int \<Rightarrow> py_error + bool" where
  "check_is_max_context doc_spans cur_span_index position =
     (case max_context_loop position (enumerate 0 doc_spans) (None, None) of
        Inl e \<Rightarrow> Inl e
      | Inr st \<Rightarrow> Inr (Some cur_span_index = snd st))"

text \<open>
  The reading of the specification: the score of span \<open>i\<close> at \<open>p\<close> is greater than the
  score of every other span that contains \<open>p\<close>.
\<close>

definition scores_higher :: "DocSpan \<Rightarrow> DocSpan \<Rightarrow> int \<Rightarrow> bool" where
  "scores_higher a b p =
     (case span_score a p of
        Inl e \<Rightarrow> False
      | Inr sa \<Rightarrow> (case span_score b p of Inl e \<Rightarrow> False | Inr sb \<Rightarrow> fl_gt sa sb))"

definition strictly_highest_score :: "DocSpan list \<Rightarrow> nat \<Rightarrow> int \<Rightarrow> bool" where
  "strictly_highest_score doc_spans i p =
     list_all (\<lambda>j. j = i \<or> \<not> in_span (doc_spans ! j) p \<or>
                    scores_higher (doc_spans ! i) (doc_spans ! j) p)
       [0 ..< length doc_spans]"

text \<open>
  The loop invariant of \<open>_check_is_max_context\<close> after the spans \<open>xs\<close>: an error is the
  \<open>OverflowError\<close> of a span that contains \<open>p\<close>; nothing is recorded while no span
  contained \<open>p\<close>; otherwise the recorded span contains \<open>p\<close>, its score is recorded, no
  span containing \<open>p\<close> scores higher, and the recorded span scores higher than every
  earlier span containing \<open>p\<close>.
\<close>

definition owner_inv ::
  "DocSpan list \<Rightarrow> int \<Rightarrow> py_error + (py_float option \<times> nat option) \<Rightarrow> bool" where
  "owner_inv xs p r =
     (case r of
        Inl e \<Rightarrow> e = OverflowError \<and>
                 (\<exists>j < length xs. in_span (xs ! j) p \<and> span_score (xs ! j) p = Inl OverflowError)
      | Inr (None, None) \<Rightarrow> (\<forall>j < length xs. \<not> in_span (xs ! j) p)
      | Inr (Some sc, Some i) \<Rightarrow>
          i < length xs \<and> in_span (xs ! i) p \<and> span_score (xs ! i) p = Inr sc \<and>
          (\<forall>j < length xs. in_span (xs ! j) p \<longrightarrow>
               (\<exists>sj. span_score (xs ! j) p = Inr sj \<and> \<not> fl_gt sj sc)) \<and>
          (\<forall>j < i. in_span (xs ! j) p \<longrightarrow>
               (\<exists>sj. span_score (xs ! j) p = Inr sj \<and> fl_gt sc sj))
      | _ \<Rightarrow> False)"

subsection \<open>Strings, joins and slices\<close>

text \<open>A Python \<open>str\<close>: the list of its code points.\<close>

type_synonym pystr = "nat list"

text \<open>\<open>sep.join(xs)\<close>\<close>

fun join :: "pystr \<Rightarrow> pystr list \<Rightarrow> pystr" where
  "join sep [] = []"
| "join sep [x] = x"
| "join sep (x # y # ys) = x @ sep @ join sep (y # ys)"

text \<open>The string \<open>" "\<close>.\<close>

definition space :: pystr where
  "space = [32]"

text \<open>
  A slice \<open>xs[a:b]\<close> with integer bounds: a negative bound counts from the end, and
  both bounds are clamped to \<open>[0, len(xs)]\<close>; a slice never raises.
\<close>

definition slice_index :: "nat \<Rightarrow> int \<Rightarrow> nat" where
  "slice_index n i = (if i < 0 then nat (max (int n + i) 0) else min (nat i) n)"

definition py_slice :: "'a list \<Rightarrow> int \<Rightarrow> int \<Rightarrow> 'a list" where
  "py_slice xs a b =
     (let lo = slice_index (length xs) a; hi = slice_index (length xs) b
      in take (hi - lo) (drop lo xs))"

subsection \<open>\<open>_improve_answer_span\<close> (lines 491-525)\<close>

text \<open>
  The inner loop \<open>for new_end in range(input_end, new_start - 1, -1)\<close>, entered at
  \<open>new_end\<close>; \<open>Some\<close> is the \<open>return\<close> inside the loop, \<open>None\<close> the exhausted range.
\<close>

function answer_end_loop ::
  "pystr list \<Rightarrow> pystr \<Rightarrow> int \<Rightarrow> int \<Rightarrow> (int \<times> int) option" where
  "answer_end_loop doc_tokens tok_answer_text new_start new_end =
     (if new_end > new_start - 1 then
        (let text_span = join space (py_slice doc_tokens new_start (new_end + 1))
         in if text_span = tok_answer_text then Some (new_start, new_end)
            else answer_end_loop doc_tokens tok_answer_text new_start (new_end - 1))
      else None)"
  by pat_completeness auto
termination
  by (relation "measure (\<lambda>(d, t, s, e). nat (e - s + 1))") auto

text \<open>The outer loop \<open>for new_start in range(input_start, input_end + 1)\<close>.\<close>

function answer_start_loop ::
  "pystr list \<Rightarrow> pystr \<Rightarrow> int \<Rightarrow> int \<Rightarrow> (int \<times> int) option" where
  "answer_start_loop doc_tokens tok_answer_text new_start input_end =
     (if new_start < input_end + 1 then
        (case answer_end_loop doc_tokens tok_answer_text new_start input_end of
           Some r \<Rightarrow> Some r
         | None \<Rightarrow> answer_start_loop doc_tokens tok_answer_text (new_start + 1) input_end)
      else None)"
  by pat_completeness auto
termination
  by (relation "measure (\<lambda>(d, t, s, e). nat (e - s + 1))") auto

text \<open>
  The tokenizer is an external collaborator (\<open>src.reader.tokenization\<close>); its
  \<open>tokenize\<close> method is a parameter.
\<close>

definition improve_answer_span ::
  "pystr list \<Rightarrow> int \<Rightarrow> int \<Rightarrow> (pystr \<Rightarrow> pystr list) \<Rightarrow> pystr \<Rightarrow> int \<times> int" where
  "improve_answer_span doc_tokens input_start input_end tokenize orig_answer_text =
     (let tok_answer_text = join space (tokenize orig_answer_text)
      in case answer_start_loop doc_tokens tok_answer_text input_start input_end of
           Some r \<Rightarrow> r
         | None \<Rightarrow> (input_start, input_end))"

text \<open>
  The specification's wording: the pairs \<open>(new_start, new_end)\<close>, \<open>new_start\<close>
  ascending from \<open>input_start\<close> and, for each, \<open>new_end\<close> descending from \<open>input_end\<close>;
  a pair matches when its space-joined token slice equals the re-tokenized answer text;
  \<open>span_before\<close> is the order of the enumeration.
\<close>

definition candidate_spans :: "int \<Rightarrow> int \<Rightarrow> (int \<times> int) list" where
  "candidate_spans input_start input_end =
     concat (map (\<lambda>new_start. map (\<lambda>new_end. (new_start, new_end)) (rev [new_start..input_end]))
                 [input_start..input_end])"

definition span_matches :: "pystr list \<Rightarrow> pystr \<Rightarrow> int \<times> int \<Rightarrow> bool" where
  "span_matches doc_tokens tok_answer_text r =
     (join space (py_slice doc_tokens (fst r) (snd r + 1)) = tok_answer_text)"

definition span_before :: "int \<times> int \<Rightarrow> int \<times> int \<Rightarrow> bool" where
  "span_before x y = (fst x < fst y \<or> (fst x = fst y \<and> snd x > snd y))"

subsection \<open>Fallible reads\<close>

text \<open>\<open>xs[i]\<close>: a negative index counts from the end, an index out of range raises.\<close>

definition py_get :: "'a list \<Rightarrow> int \<Rightarrow> py_error + 'a" where
  "py_get xs i =
     (if 0 \<le> i \<and> i < int (length xs) then Inr (xs ! nat i)
      else if i < 0 \<and> - int (length xs) \<le> i then Inr (xs ! nat (int (length xs) + i))
      else Inl IndexError)"

subsection \<open>\<open>read_record_examples\<close> (lines 111-189)\<close>

text \<open>\<open>is_whitespace\<close> of lines 116-119, on code points.\<close>

definition is_whitespace :: "nat \<Rightarrow> bool" where
  "is_whitespace c = (c = 32 \<or> c = 9 \<or> c = 13 \<or> c = 10 \<or> c = 0x202F)"

text \<open>\<open>s.replace('\\xa0', ' ')\<close>\<close>

definition replace_nbsp :: "pystr \<Rightarrow> pystr" where
  "replace_nbsp s = map (\<lambda>c. if c = 0xA0 then 32 else c) s"

text \<open>
  The loop of lines 127-136 over the characters of the passage, on the state
  \<open>doc_tokens, char_to_word_offset, prev_is_whitespace\<close>. \<open>doc_tokens[-1] += c\<close> on an
  empty list would raise \<open>IndexError\<close>.
\<close>

fun passage_loop ::
  "pystr \<Rightarrow> pystr list \<Rightarrow> int list \<Rightarrow> bool \<Rightarrow> py_error + (pystr list \<times> int list)" where
  "passage_loop [] doc_tokens char_to_word_offset prev_is_whitespace =
     Inr (doc_tokens, char_to_word_offset)"
| "passage_loop (c # cs) doc_tokens char_to_word_offset prev_is_whitespace =
     (if is_whitespace c then
        passage_loop cs doc_tokens
          (char_to_word_offset @ [int (length doc_tokens) - 1]) True
      else if prev_is_whitespace then
        passage_loop cs (doc_tokens @ [[c]])
          (char_to_word_offset @ [int (length (doc_tokens @ [[c]])) - 1]) False
      else if doc_tokens = [] then Inl IndexError
      else
        passage_loop cs (butlast doc_tokens @ [last doc_tokens @ [c]])
          (char_to_word_offset @ [int (length doc_tokens) - 1]) False)"

text \<open>
  \<open>haystack.find(needle)\<close>: the lowest index at which \<open>needle\<close> starts, or \<open>-1\<close>;
  \<open>i\<close> is the index of the head of the rest of the haystack.
\<close>

fun py_find_from :: "pystr \<Rightarrow> pystr \<Rightarrow> int \<Rightarrow> int" where
  "py_find_from [] needle i = (if needle = [] then i else - 1)"
| "py_find_from (c # cs) needle i =
     (if take (length needle) (c # cs) = needle then i else py_find_from cs needle (i + 1))"

definition py_find :: "pystr \<Rightarrow> pystr \<Rightarrow> int" where
  "py_find haystack needle = py_find_from haystack needle 0"

text \<open>One entry of \<open>qa["answers"]\<close> and one entry of \<open>entry["qas"]\<close>.\<close>

record answer =
  answer_text :: pystr
  answer_start :: int

record qa =
  qa_id :: pystr
  qa_query :: pystr
  qa_answers :: "answer list"
  qa_is_impossible :: bool

record ReCoRDExample =
  qas_id :: pystr
  question_text :: pystr
  example_doc_tokens :: "pystr list"
  orig_answer_text :: "pystr option"
  word_start_position :: "int option"
  word_end_position :: "int option"
  answer_is_impossible :: bool

text \<open>
  The body of \<open>for qa in entry["qas"]\<close> (lines 139-187): an error, \<open>None\<close> for the
  \<open>continue\<close> of line 173, or the example that is appended.
  \<open>tokenization.whitespace_tokenize\<close> is external and is a parameter.
\<close>

definition read_qa ::
  "(pystr \<Rightarrow> pystr list) \<Rightarrow> bool \<Rightarrow> bool \<Rightarrow> pystr list \<Rightarrow> int list \<Rightarrow> qa \<Rightarrow>
   py_error + ReCoRDExample option" where
  "read_qa whitespace_tokenize is_training version_2_with_negative doc_tokens
       char_to_word_offset q =
     (let is_impossible = (if is_training \<and> version_2_with_negative
                           then qa_is_impossible q else False);
          make = (\<lambda>answer_text start_pos end_pos.
                    \<lparr>qas_id = qa_id q, question_text = replace_nbsp (qa_query q),
                     example_doc_tokens = doc_tokens, orig_answer_text = answer_text,
                     word_start_position = start_pos, word_end_position = end_pos,
                     answer_is_impossible = is_impossible\<rparr>)
      in if is_training then
           (if \<not> is_impossible then
              (case py_get (qa_answers q) 0 of
                 Inl e \<Rightarrow> Inl e
               | Inr answer \<Rightarrow>
                   (let answer_offset = answer_start answer;
                        answer_length = int (length (answer_text answer))
                    in case py_get char_to_word_offset answer_offset of
                         Inl e \<Rightarrow> Inl e
                       | Inr start_pos \<Rightarrow>
                           (case py_get char_to_word_offset
                                   (answer_offset + answer_length - 1) of
                              Inl e \<Rightarrow> Inl e
                            | Inr end_pos \<Rightarrow>
                                (let actual_text =
                                       join space (py_slice doc_tokens start_pos (end_pos + 1));
                                     cleaned_answer_text =
                                       join space (whitespace_tokenize (answer_text answer))
                                 in if py_find actual_text cleaned_answer_text = - 1
                                    then Inr None
                                    else Inr (Some (make (Some (answer_text answer))
                                                 (Some start_pos) (Some end_pos)))))))
            else Inr (Some (make (Some []) (Some (- 1)) (Some (- 1)))))
         else Inr (Some (make None None None)))"

text \<open>The loop over the QA pairs of one passage, appending to \<open>examples\<close>.\<close>

fun qas_loop ::
  "(pystr \<Rightarrow> pystr list) \<Rightarrow> bool \<Rightarrow> bool \<Rightarrow> pystr list \<Rightarrow> int list \<Rightarrow> qa list \<Rightarrow>
   ReCoRDExample list \<Rightarrow> py_error + ReCoRDExample list" where
  "qas_loop wt is_training v2 doc_tokens char_to_word_offset [] examples = Inr examples"
| "qas_loop wt is_training v2 doc_tokens char_to_word_offset (q # rest) examples =
     (case read_qa wt is_training v2 doc_tokens char_to_word_offset q of
        Inl e \<Rightarrow> Inl e
      | Inr None \<Rightarrow> qas_loop wt is_training v2 doc_tokens char_to_word_offset rest examples
      | Inr (Some example) \<Rightarrow>
          qas_loop wt is_training v2 doc_tokens char_to_word_offset rest
            (examples @ [example]))"

text \<open>One entry of \<open>input_data\<close>: the passage text and its QA pairs (lines 123-187).\<close>

definition read_entry ::
  "(pystr \<Rightarrow> pystr list) \<Rightarrow> bool \<Rightarrow> bool \<Rightarrow> pystr \<Rightarrow> qa list \<Rightarrow>
   ReCoRDExample list \<Rightarrow> py_error + ReCoRDExample list" where
  "read_entry wt is_training v2 passage_text qas examples =
     (case passage_loop (replace_nbsp passage_text) [] [] True of
        Inl e \<Rightarrow> Inl e
      | Inr (doc_tokens, char_to_word_offset) \<Rightarrow>
          qas_loop wt is_training v2 doc_tokens char_to_word_offset qas examples)"

text \<open>
  What one QA pair adds to \<open>examples\<close>: the example, or nothing when the pair is
  dropped (or raises).
\<close>

definition kept_example ::
  "(pystr \<Rightarrow> pystr list) \<Rightarrow> bool \<Rightarrow> bool \<Rightarrow> pystr list \<Rightarrow> int list \<Rightarrow> qa \<Rightarrow>
   ReCoRDExample option" where
  "kept_example wt is_training v2 doc offsets q =
     (case read_qa wt is_training v2 doc offsets q of Inl e \<Rightarrow> None | Inr r \<Rightarrow> r)"

text \<open>
  A small passage used to exercise the reader: \<open>the cat sat\<close>, with QA pairs whose answer
  starts at character 4.
\<close>

definition sample_passage :: pystr where
  "sample_passage = map of_char ''the cat sat''"

definition sample_qa :: "pystr \<Rightarrow> qa" where
  "sample_qa t =
     \<lparr>qa_id = map of_char ''q'', qa_query = map of_char ''who sat'',
      qa_answers = [\<lparr>answer_text = t, answer_start = 4\<rparr>], qa_is_impossible = False\<rparr>"

subsection \<open>Features (lines 77-108) and their construction (lines 334-488)\<close>

record InputFeatures =
  unique_id :: int
  example_index :: nat
  doc_span_index :: nat
  tokens :: "pystr list"
  token_to_orig_map :: "nat \<rightharpoonup> int"
  token_is_max_context :: "nat \<rightharpoonup> bool"
  input_ids :: "int list"
  input_mask :: "int list"
  segment_ids :: "int list"
  wn_concept_ids :: "int list list"
  nell_concept_ids :: "int list list"
  start_position :: "int option"
  end_position :: "int option"
  is_impossible :: bool

text \<open>
  The local variables of \<open>__call__\<close> for one example when line 334 is reached: the
  query after truncation to \<open>max_query_length\<close>, the subword tokens of the document with
  their word indices, the concept ids looked up for query and document (both tables in
  use), and the projected answer span (\<open>None\<close> outside training). Lines 267-332, which
  compute them with the tokenizer and the concept tables, are a parameter \<open>prepare\<close> of
  the converter, which may raise.
\<close>

record prepared_example =
  query_tokens :: "pystr list"
  query_wn_concepts :: "int list list"
  query_nell_concepts :: "int list list"
  all_doc_tokens :: "pystr list"
  tok_to_orig_index :: "int list"
  doc_wn_concepts :: "int list list"
  doc_nell_concepts :: "int list list"
  tok_start_position :: "int option"
  tok_end_position :: "int option"
  example_is_impossible :: bool

text \<open>The lists a feature is built from, while lines 354-390 append to them.\<close>

record feature_rows =
  row_tokens :: "pystr list"
  row_token_to_orig_map :: "nat \<rightharpoonup> int"
  row_token_is_max_context :: "nat \<rightharpoonup> bool"
  row_segment_ids :: "int list"
  row_wn_concept_ids :: "int list list"
  row_nell_concept_ids :: "int list list"

definition CLS :: pystr where
  "CLS = map of_char ''[CLS]''"

definition SEP :: pystr where
  "SEP = map of_char ''[SEP]''"

text \<open>
  Appending a structural marker, or one query token with its concept rows (lines
  361-374 and 387-390).
\<close>

definition append_row ::
  "pystr \<Rightarrow> int \<Rightarrow> int list \<Rightarrow> int list \<Rightarrow> feature_rows \<Rightarrow> feature_rows" where
  "append_row token segment wn nell b =
     b\<lparr>row_tokens := row_tokens b @ [token],
       row_segment_ids := row_segment_ids b @ [segment],
       row_wn_concept_ids := row_wn_concept_ids b @ [wn],
       row_nell_concept_ids := row_nell_concept_ids b @ [nell]\<rparr>"

text \<open>
  The loop over \<open>zip(query_tokens, query_wn_concepts, query_nell_concepts)\<close>, which
  stops at the shortest of the three lists.
\<close>

fun query_loop ::
  "pystr list \<Rightarrow> int list list \<Rightarrow> int list list \<Rightarrow> feature_rows \<Rightarrow> feature_rows" where
  "query_loop (token # ts) (query_wn_concept # ws) (query_nell_concept # ns) b =
     query_loop ts ws ns (append_row token 0 query_wn_concept query_nell_concept b)"
| "query_loop _ _ _ b = b"

text \<open>One iteration of \<open>for i in range(doc_span.length)\<close> (lines 377-386).\<close>

definition doc_token_step ::
  "prepared_example \<Rightarrow> DocSpan list \<Rightarrow> nat \<Rightarrow> DocSpan \<Rightarrow> feature_rows \<Rightarrow> nat \<Rightarrow>
   py_error + feature_rows" where
  "doc_token_step ex doc_spans span_index doc_span b i =
     (let split_token_index = start doc_span + int i in
      case py_get (tok_to_orig_index ex) split_token_index of
        Inl e \<Rightarrow> Inl e
      | Inr orig \<Rightarrow>
          (case check_is_max_context doc_spans span_index split_token_index of
             Inl e \<Rightarrow> Inl e
           | Inr is_max_context \<Rightarrow>
               (case py_get (all_doc_tokens ex) split_token_index of
                  Inl e \<Rightarrow> Inl e
                | Inr token \<Rightarrow>
                    (case py_get (doc_wn_concepts ex) split_token_index of
                       Inl e \<Rightarrow> Inl e
                     | Inr wn \<Rightarrow>
                         (case py_get (doc_nell_concepts ex) split_token_index of
                            Inl e \<Rightarrow> Inl e
                          | Inr nell \<Rightarrow>
                              Inr (append_row token 1 wn nell
                                    (b\<lparr>row_token_to_orig_map :=
                                         (row_token_to_orig_map b)
                                           (length (row_tokens b) \<mapsto> orig),
                                       row_token_is_max_context :=
                                         (row_token_is_max_context b)
                                           (length (row_tokens b) \<mapsto> is_max_context)\<rparr>)))))))"

fun doc_token_loop ::
  "prepared_example \<Rightarrow> DocSpan list \<Rightarrow> nat \<Rightarrow> DocSpan \<Rightarrow> nat list \<Rightarrow> feature_rows \<Rightarrow>
   py_error + feature_rows" where
  "doc_token_loop ex doc_spans span_index doc_span [] b = Inr b"
| "doc_token_loop ex doc_spans span_index doc_span (i # rest) b =
     (case doc_token_step ex doc_spans span_index doc_span b i of
        Inl e \<Rightarrow> Inl e
      | Inr b' \<Rightarrow> doc_token_loop ex doc_spans span_index doc_span rest b')"

text \<open>Lines 354-390: \<open>[CLS]\<close>, the query, \<open>[SEP]\<close>, the slice of the document, \<open>[SEP]\<close>.\<close>

definition span_rows ::
  "prepared_example \<Rightarrow> DocSpan list \<Rightarrow> nat \<Rightarrow> DocSpan \<Rightarrow> py_error + feature_rows" where
  "span_rows ex doc_spans span_index doc_span =
     (let b0 = \<lparr>row_tokens = [], row_token_to_orig_map = Map.empty,
                 row_token_is_max_context = Map.empty, row_segment_ids = [],
                 row_wn_concept_ids = [], row_nell_concept_ids = []\<rparr>;
          b1 = append_row CLS 0 [] [] b0;
          b2 = query_loop (query_tokens ex) (query_wn_concepts ex) (query_nell_concepts ex) b1;
          b3 = append_row SEP 0 [] [] b2
      in case doc_token_loop ex doc_spans span_index doc_span
                [0 ..< nat (span_length doc_span)] b3 of
           Inl e \<Rightarrow> Inl e
         | Inr b4 \<Rightarrow> Inr (append_row SEP 1 [] [] b4))"

text \<open>
  Lines 411-412 for one row:
  \<open>concept_id + [0] * (max_concept_length - len(concept_id))\<close>, then
  \<open>[:max_concept_length]\<close>.
\<close>

definition pad_concept_row :: "int \<Rightarrow> int list \<Rightarrow> int list" where
  "pad_concept_row max_concept_length concept_id =
     py_slice
       (concept_id @ replicate (nat (max_concept_length - int (length concept_id))) 0)
       0 max_concept_length"

text \<open>Lines 410-413 for one table: every row is rewritten, then the \<open>assert\<close>.\<close>

definition pad_concept_ids :: "int \<Rightarrow> int list list \<Rightarrow> py_error + int list list" where
  "pad_concept_ids max_concept_length concept_ids =
     (let padded = map (pad_concept_row max_concept_length) concept_ids
      in if list_all (\<lambda>id_list. int (length id_list) = max_concept_length) padded
         then Inr padded else Inl AssertionError)"

text \<open>
  Lines 415-433: the labels of the feature. The outer \<open>None\<close> is the \<open>continue\<close> of line
  425; comparing a position that is \<open>None\<close> raises \<open>TypeError\<close>, and the \<open>and\<close> of line
  423 reads the end position only when the test of the start position holds.
\<close>

definition span_labels ::
  "prepared_example \<Rightarrow> bool \<Rightarrow> DocSpan \<Rightarrow> py_error + (int option \<times> int option) option" where
  "span_labels ex is_training doc_span =
     (if is_training \<and> \<not> example_is_impossible ex then
        (let doc_start = start doc_span;
             doc_end = start doc_span + span_length doc_span - 1
         in case tok_start_position ex of
              None \<Rightarrow> Inl TypeError
            | Some tok_start \<Rightarrow>
                if \<not> tok_start \<ge> doc_start then Inr None
                else (case tok_end_position ex of
                        None \<Rightarrow> Inl TypeError
                      | Some tok_end \<Rightarrow>
                          if \<not> tok_end \<le> doc_end then Inr None
                          else (let doc_offset = int (length (query_tokens ex)) + 2
                                in Inr (Some (Some (tok_start - doc_start + doc_offset),
                                              Some (tok_end - doc_start + doc_offset))))))
      else if is_training \<and> example_is_impossible ex then Inr (Some (Some 0, Some 0))
      else Inr (Some (None, None)))"

text \<open>
  The configuration of one call: the two table widths of the converter
  (\<open>self.max_wn_concept_length\<close>, \<open>self.max_nell_concept_length\<close>), the tokenizer's
  \<open>convert_tokens_to_ids\<close>, and the arguments of \<open>__call__\<close>.
\<close>

record converter =
  max_wn_concept_length :: int
  max_nell_concept_length :: int
  convert_tokens_to_ids :: "pystr list \<Rightarrow> int list"
  max_seq_length :: int
  doc_stride :: int
  is_training :: bool

text \<open>
  The body of \<open>for (doc_span_index, doc_span) in enumerate(doc_spans)\<close>: an error, a
  \<open>continue\<close> (\<open>None\<close>) or the feature that is yielded with the current \<open>unique_id\<close>.
\<close>

definition build_feature ::
  "converter \<Rightarrow> prepared_example \<Rightarrow> nat \<Rightarrow> DocSpan list \<Rightarrow> nat \<Rightarrow> DocSpan \<Rightarrow> int \<Rightarrow>
   py_error + InputFeatures option" where
  "build_feature cv ex ex_index doc_spans span_index doc_span uid =
     (case span_rows ex doc_spans span_index doc_span of
        Inl e \<Rightarrow> Inl e
      | Inr b \<Rightarrow>
          (case pad_concept_ids (max_wn_concept_length cv) (row_wn_concept_ids b) of
             Inl e \<Rightarrow> Inl e
           | Inr wn \<Rightarrow>
               (case pad_concept_ids (max_nell_concept_length cv) (row_nell_concept_ids b) of
                  Inl e \<Rightarrow> Inl e
                | Inr nell \<Rightarrow>
                    (case span_labels ex (is_training cv) doc_span of
                       Inl e \<Rightarrow> Inl e
                     | Inr None \<Rightarrow> Inr None
                     | Inr (Some (start_pos, end_pos)) \<Rightarrow>
                         Inr (Some
                           \<lparr>unique_id = uid,
                            example_index = ex_index,
                            doc_span_index = span_index,
                            tokens = row_tokens b,
                            token_to_orig_map = row_token_to_orig_map b,
                            token_is_max_context = row_token_is_max_context b,
                            input_ids = convert_tokens_to_ids cv (row_tokens b),
                            input_mask =
                              replicate (length (convert_tokens_to_ids cv (row_tokens b))) 1,
                            segment_ids = row_segment_ids b,
                            wn_concept_ids = wn,
                            nell_concept_ids = nell,
                            start_position = start_pos,
                            end_position = end_pos,
                            is_impossible = example_is_impossible ex\<rparr>)))))"

text \<open>How a generator ends: exhausted, by an exception, or never.\<close>

datatype gen_end = Exhausted | Raised py_error | Diverges

text \<open>
  The loop over the spans of one example: the features yielded so far, the counter, and
  an error if one stopped the loop.
\<close>

fun span_loop ::
  "converter \<Rightarrow> prepared_example \<Rightarrow> nat \<Rightarrow> DocSpan list \<Rightarrow> (nat \<times> DocSpan) list \<Rightarrow>
   int \<Rightarrow> InputFeatures list \<Rightarrow> InputFeatures list \<times> int \<times> py_error option" where
  "span_loop cv ex ex_index doc_spans [] uid yielded = (yielded, uid, None)"
| "span_loop cv ex ex_index doc_spans ((span_index, doc_span) # rest) uid yielded =
     (case build_feature cv ex ex_index doc_spans span_index doc_span uid of
        Inl e \<Rightarrow> (yielded, uid, Some e)
      | Inr None \<Rightarrow> span_loop cv ex ex_index doc_spans rest uid yielded
      | Inr (Some feature) \<Rightarrow>
          span_loop cv ex ex_index doc_spans rest (uid + 1) (yielded @ [feature]))"

text \<open>
  The loop over the examples. \<open>max_tokens_for_doc = max_seq_length - len(query_tokens) - 3\<close>
  (line 335); the chunking loop of an example runs before any of its features is
  yielded.
\<close>

fun example_loop ::
  "converter \<Rightarrow> ('ex \<Rightarrow> py_error + prepared_example) \<Rightarrow> (nat \<times> 'ex) list \<Rightarrow>
   int \<Rightarrow> InputFeatures list \<Rightarrow> InputFeatures list \<times> gen_end" where
  "example_loop cv prepare [] uid yielded = (yielded, Exhausted)"
| "example_loop cv prepare ((ex_index, example) # rest) uid yielded =
     (case prepare example of
        Inl e \<Rightarrow> (yielded, Raised e)
      | Inr ex \<Rightarrow>
          (let max_tokens_for_doc = max_seq_length cv - int (length (query_tokens ex)) - 3
           in case build_doc_spans (all_doc_tokens ex) max_tokens_for_doc (doc_stride cv) of
                None \<Rightarrow> (yielded, Diverges)
              | Some doc_spans \<Rightarrow>
                  (case span_loop cv ex ex_index doc_spans (enumerate 0 doc_spans) uid yielded of
                     (yielded', uid', Some e) \<Rightarrow> (yielded', Raised e)
                   | (yielded', uid', None) \<Rightarrow> example_loop cv prepare rest uid' yielded')))"

text \<open>\<open>Examples_To_Features_Converter.__call__\<close>: \<open>unique_id = 1000000000\<close>, then the loop.\<close>

definition examples_to_features ::
  "converter \<Rightarrow> ('ex \<Rightarrow> py_error + prepared_example) \<Rightarrow> 'ex list \<Rightarrow>
   InputFeatures list \<times> gen_end" where
  "examples_to_features cv prepare examples =
     example_loop cv prepare (enumerate 0 examples) 1000000000 []"

text \<open>
  The features \<open>wrapper\<close> (lines 693-705) pulls over its epochs when \<open>shuffle\<close> is off:
  every epoch calls \<open>get_features\<close>, which makes a new converter and calls it on the
  same examples; an epoch whose generator does not end normally ends the process.
\<close>

fun features_over_epochs ::
  "converter \<Rightarrow> ('ex \<Rightarrow> py_error + prepared_example) \<Rightarrow> 'ex list \<Rightarrow> nat \<Rightarrow>
   InputFeatures list" where
  "features_over_epochs cv prepare examples 0 = []"
| "features_over_epochs cv prepare examples (Suc epochs_left) =
     (case examples_to_features cv prepare examples of
        (features, Exhausted) \<Rightarrow> features @ features_over_epochs cv prepare examples epochs_left
      | (features, _) \<Rightarrow> features)"

text \<open>
  A small run used to exercise the converter: one example with a one-token query and a
  three-token document, a sequence length of 6 (so two tokens of the document fit) and a
  stride of 1, which gives the spans \<open>(0, 2)\<close> and \<open>(1, 2)\<close>; the WordNet width is 2 and
  the NELL width is 1.
\<close>

definition sample_converter :: converter where
  "sample_converter =
     \<lparr>max_wn_concept_length = 2, max_nell_concept_length = 1,
      convert_tokens_to_ids = map (\<lambda>t. int (length t)),
      max_seq_length = 6, doc_stride = 1, is_training = False\<rparr>"

definition sample_prepared :: prepared_example where
  "sample_prepared =
     \<lparr>query_tokens = [[113]], query_wn_concepts = [[7, 8, 9]], query_nell_concepts = [[]],
      all_doc_tokens = [[97], [98], [99]], tok_to_orig_index = [0, 1, 2],
      doc_wn_concepts = [[1], [], [2, 3]], doc_nell_concepts = [[4], [5, 6], []],
      tok_start_position = None, tok_end_position = None,
      example_is_impossible = False\<rparr>"

subsection \<open>\<open>batch_reader\<close> (lines 656-681)\<close>

text \<open>
  The list \<open>example\<close> of line 664: the ids, the segment ids, \<open>range(384)\<close>, the two
  concept matrices, and the labels, which are \<open>[unique_id]\<close> for a feature without a
  start position and \<open>[start_position, end_position]\<close> otherwise.
\<close>

record batch_entry =
  entry_input_ids :: "int list"
  entry_segment_ids :: "int list"
  entry_position_ids :: "int list"
  entry_wn_concept_ids :: "int list list"
  entry_nell_concept_ids :: "int list list"
  entry_labels :: "int option list"

definition feature_entry :: "InputFeatures \<Rightarrow> batch_entry" where
  "feature_entry feature =
     \<lparr>entry_input_ids = input_ids feature,
      entry_segment_ids = segment_ids feature,
      entry_position_ids = map int [0 ..< 384],
      entry_wn_concept_ids = wn_concept_ids feature,
      entry_nell_concept_ids = nell_concept_ids feature,
      entry_labels =
        (case start_position feature of
           None \<Rightarrow> [Some (unique_id feature)]
         | Some _ \<Rightarrow> [start_position feature, end_position feature])\<rparr>"

text \<open>
  The \<open>for\<close> loop over the features, on the state \<open>batch, total_token_num, max_len\<close>
  and the pairs yielded so far; at the end of the features the pending batch is yielded
  if it is not empty. (The progress counter \<open>current_train_example\<close> is not part of the
  result and is left out.)
\<close>

fun batch_reader_loop ::
  "int \<Rightarrow> bool \<Rightarrow> InputFeatures list \<Rightarrow> batch_entry list \<Rightarrow> int \<Rightarrow> int \<Rightarrow>
   (batch_entry list \<times> int) list \<Rightarrow> (batch_entry list \<times> int) list" where
  "batch_reader_loop batch_size in_tokens [] batch total_token_num max_len yielded =
     (if batch \<noteq> [] then yielded @ [(batch, total_token_num)] else yielded)"
| "batch_reader_loop batch_size in_tokens (feature # rest) batch total_token_num max_len yielded =
     (let seq_len = int (length (input_ids feature));
          example = feature_entry feature;
          max_len = max max_len seq_len;
          to_append = (if in_tokens then (int (length batch) + 1) * max_len \<le> batch_size
                       else int (length batch) < batch_size)
      in if to_append
         then batch_reader_loop batch_size in_tokens rest
                (batch @ [example]) (total_token_num + seq_len) max_len yielded
         else batch_reader_loop batch_size in_tokens rest
                [example] seq_len seq_len (yielded @ [(batch, total_token_num)]))"

definition batch_reader ::
  "InputFeatures list \<Rightarrow> int \<Rightarrow> bool \<Rightarrow> (batch_entry list \<times> int) list" where
  "batch_reader features batch_size in_tokens =
     batch_reader_loop batch_size in_tokens features [] 0 0 []"

text \<open>A feature with \<open>n\<close> input ids, used to exercise the batching.\<close>

definition feature_of_length :: "nat \<Rightarrow> InputFeatures" where
  "feature_of_length n =
     \<lparr>unique_id = 1000000000, example_index = 0, doc_span_index = 0,
      tokens = replicate n [120], token_to_orig_map = Map.empty,
      token_is_max_context = Map.empty, input_ids = replicate n 7,
      input_mask = replicate n 1, segment_ids = replicate n 0,
      wn_concept_ids = replicate n [], nell_concept_ids = replicate n [],
      start_position = None, end_position = None, is_impossible = False\<rparr>"

subsection \<open>The release of batches in \<open>wrapper\<close> (lines 707-726)\<close>

text \<open>
  The loop over the pairs \<open>batch_reader\<close> yields in one epoch. \<open>prepare_batch_data\<close> is
  external (\<open>src.reader.batching_twomemory\<close>) and is a parameter, applied to the pair
  \<open>(batch_data, total_token_num)\<close>. The state is \<open>all_dev_batches\<close> and the batches
  yielded to the consumer so far; the result also returns what is left in
  \<open>all_dev_batches\<close> when the loop ends, which nothing reads afterwards.
\<close>

fun dev_batches_loop ::
  "('a \<Rightarrow> 'b) \<Rightarrow> int \<Rightarrow> 'a list \<Rightarrow> 'b list \<Rightarrow> 'b list \<Rightarrow> 'b list \<times> 'b list" where
  "dev_batches_loop prepare_batch_data dev_count [] all_dev_batches yielded =
     (yielded, all_dev_batches)"
| "dev_batches_loop prepare_batch_data dev_count (b # rest) all_dev_batches yielded =
     (let batch_data = prepare_batch_data b;
          all_dev_batches = (if int (length all_dev_batches) < dev_count
                             then all_dev_batches @ [batch_data] else all_dev_batches)
      in if int (length all_dev_batches) = dev_count
         then dev_batches_loop prepare_batch_data dev_count rest [] (yielded @ all_dev_batches)
         else dev_batches_loop prepare_batch_data dev_count rest all_dev_batches yielded)"

text \<open>One epoch starts with \<open>all_dev_batches = []\<close> (line 707).\<close>

definition dev_batches_epoch :: "('a \<Rightarrow> 'b) \<Rightarrow> int \<Rightarrow> 'a list \<Rightarrow> 'b list \<times> 'b list" where
  "dev_batches_epoch prepare_batch_data dev_count batches =
     dev_batches_loop prepare_batch_data dev_count batches [] []"

text \<open>What the consumer of \<open>wrapper\<close> receives, given the batches of every epoch.\<close>

definition wrapper_yields :: "('a \<Rightarrow> 'b) \<Rightarrow> int \<Rightarrow> 'a list list \<Rightarrow> 'b list" where
  "wrapper_yields prepare_batch_data dev_count epochs =
     concat (map (\<lambda>batches. fst (dev_batches_epoch prepare_batch_data dev_count batches)) epochs)"

subsection \<open>The final answer with negative answers enabled (lines 879-937)\<close>

text \<open>
  \<open>_NbestPrediction = collections.namedtuple("NbestPrediction", ["text", "start_logit",
  "end_logit"])\<close>. The logits are Python floats.
\<close>

record NbestPrediction =
  nbest_text :: pystr
  start_logit :: py_float
  end_logit :: py_float

text \<open>
  Lines 897-902: the loop keeps the first entry of \<open>nbest\<close> whose text is not empty
  (a namedtuple is truthy, so \<open>not best_non_null_entry\<close> holds exactly while it is
  \<open>None\<close>).
\<close>

fun best_non_null_loop ::
  "NbestPrediction list \<Rightarrow> NbestPrediction option \<Rightarrow> NbestPrediction option" where
  "best_non_null_loop [] best_non_null_entry = best_non_null_entry"
| "best_non_null_loop (entry # rest) best_non_null_entry =
     best_non_null_loop rest
       (if best_non_null_entry = None
        then (if nbest_text entry \<noteq> [] then Some entry else best_non_null_entry)
        else best_non_null_entry)"

text \<open>
  Lines 879-937 with \<open>version_2_with_negative\<close> set, from the \<open>nbest\<close> list and the keys
  of \<open>seen_predictions\<close> that the loop of lines 841-877 leaves: the null entry is added
  when the empty text was not seen, a placeholder when \<open>nbest\<close> is still empty, and the
  prediction is decided; reading \<open>start_logit\<close> of \<open>None\<close> raises \<open>AttributeError\<close>.
  Line 931 computes \<open>(score_null - start_logit) - end_logit\<close> in floats, each difference
  rounded, and line 934 compares the result with the threshold, a float. (The
  probabilities of lines 907-918 go to the n-best file only and are left out.)
\<close>

definition predict_with_negative ::
  "NbestPrediction list \<Rightarrow> pystr set \<Rightarrow> py_float \<Rightarrow> py_float \<Rightarrow> py_float \<Rightarrow> py_float \<Rightarrow>
   py_error + pystr" where
  "predict_with_negative nbest seen_predictions null_start_logit null_end_logit
       score_null null_score_diff_threshold =
     (let nbest = (if [] \<notin> seen_predictions
                   then nbest @ [\<lparr>nbest_text = [], start_logit = null_start_logit,
                                   end_logit = null_end_logit\<rparr>]
                   else nbest);
          nbest = (if nbest = []
                   then nbest @ [\<lparr>nbest_text = map of_char ''empty'',
                                   start_logit = Finite 0 0, end_logit = Finite 0 0\<rparr>]
                   else nbest)
      in case best_non_null_loop nbest None of
           None \<Rightarrow> Inl AttributeError
         | Some best_non_null_entry \<Rightarrow>
             (let score_diff = fl_sub (fl_sub score_null (start_logit best_non_null_entry))
                                 (end_logit best_non_null_entry)
              in if fl_gt score_diff null_score_diff_threshold then Inr []
                 else Inr (nbest_text best_non_null_entry)))"

subsection \<open>\<open>get_final_text\<close> (lines 959-1051)\<close>

text \<open>
  \<open>_strip_spaces\<close> (lines 987-996): the loop over \<open>enumerate(text)\<close> on the state
  \<open>ns_chars, ns_to_s_map\<close>. The \<open>OrderedDict\<close> is the list of its items in insertion
  order; every key \<open>len(ns_chars)\<close> is new when it is inserted.
\<close>

fun strip_spaces_loop ::
  "(nat \<times> nat) list \<Rightarrow> pystr \<Rightarrow> (int \<times> int) list \<Rightarrow> pystr \<times> (int \<times> int) list" where
  "strip_spaces_loop [] ns_chars ns_to_s_map = (ns_chars, ns_to_s_map)"
| "strip_spaces_loop ((i, c) # rest) ns_chars ns_to_s_map =
     (if c = 32 then strip_spaces_loop rest ns_chars ns_to_s_map
      else strip_spaces_loop rest (ns_chars @ [c])
             (ns_to_s_map @ [(int (length ns_chars), int i)]))"

definition strip_spaces :: "pystr \<Rightarrow> pystr \<times> (int \<times> int) list" where
  "strip_spaces t = strip_spaces_loop (enumerate 0 t) [] []"

text \<open>
  Lines 1024-1026: \<open>tok_s_to_ns_map[tok_index] = i\<close> for the items \<open>(i, tok_index)\<close> of
  \<open>tok_ns_to_s_map\<close>.
\<close>

fun invert_loop :: "(int \<times> int) list \<Rightarrow> (int \<rightharpoonup> int) \<Rightarrow> (int \<rightharpoonup> int)" where
  "invert_loop [] tok_s_to_ns_map = tok_s_to_ns_map"
| "invert_loop ((i, tok_index) # rest) tok_s_to_ns_map =
     invert_loop rest (tok_s_to_ns_map(tok_index \<mapsto> i))"

text \<open>\<open>d[k]\<close> on a dict: a missing key raises \<open>KeyError\<close>.\<close>

definition dict_get :: "('k \<rightharpoonup> 'v) \<Rightarrow> 'k \<Rightarrow> py_error + 'v" where
  "dict_get d k = (case d k of None \<Rightarrow> Inl KeyError | Some v \<Rightarrow> Inr v)"

text \<open>
  Lines 1028-1032 (and 1039-1043): a position of the tokenized text is taken through
  \<open>tok_s_to_ns_map\<close> and \<open>orig_ns_to_s_map\<close>, each read guarded by an \<open>in\<close> test; \<open>None\<close>
  when a test fails.
\<close>

definition project_position ::
  "(int \<rightharpoonup> int) \<Rightarrow> (int \<times> int) list \<Rightarrow> int \<Rightarrow> py_error + int option" where
  "project_position tok_s_to_ns_map orig_ns_to_s_map position =
     (if position \<in> dom tok_s_to_ns_map then
        (case dict_get tok_s_to_ns_map position of
           Inl e \<Rightarrow> Inl e
         | Inr ns_position \<Rightarrow>
             (if ns_position \<in> dom (map_of orig_ns_to_s_map) then
                (case dict_get (map_of orig_ns_to_s_map) ns_position of
                   Inl e \<Rightarrow> Inl e
                 | Inr orig_position \<Rightarrow> Inr (Some orig_position))
              else Inr None))
      else Inr None)"

text \<open>
  \<open>get_final_text\<close>. \<open>tokenize\<close> is the \<open>tokenize\<close> method of the external
  \<open>BasicTokenizer(do_lower_case)\<close>; \<open>verbose\<close> only switches logging.
\<close>

definition get_final_text :: "(pystr \<Rightarrow> pystr list) \<Rightarrow> pystr \<Rightarrow> pystr \<Rightarrow> py_error + pystr" where
  "get_final_text tokenize pred_text orig_text =
     (let tok_text = join space (tokenize orig_text);
          start_position = py_find tok_text pred_text
      in if start_position = - 1 then Inr orig_text
         else
           (let end_position = start_position + int (length pred_text) - 1;
                orig_ns = strip_spaces orig_text;
                tok_ns = strip_spaces tok_text
            in if length (fst orig_ns) \<noteq> length (fst tok_ns) then Inr orig_text
               else
                 (let tok_s_to_ns_map = invert_loop (snd tok_ns) Map.empty
                  in case project_position tok_s_to_ns_map (snd orig_ns) start_position of
                       Inl e \<Rightarrow> Inl e
                     | Inr None \<Rightarrow> Inr orig_text
                     | Inr (Some orig_start_position) \<Rightarrow>
                         (case project_position tok_s_to_ns_map (snd orig_ns) end_position of
                            Inl e \<Rightarrow> Inl e
                          | Inr None \<Rightarrow> Inr orig_text
                          | Inr (Some orig_end_position) \<Rightarrow>
                              Inr (py_slice orig_text orig_start_position
                                     (orig_end_position + 1))))))"

text \<open>
  The specification's reading of the position maps: the entry of a position of the
  tokenized text in \<open>tok_s_to_ns_map\<close>, taken through \<open>orig_ns_to_s_map\<close>, if both exist.
\<close>

definition mapped_position :: "pystr \<Rightarrow> pystr \<Rightarrow> int \<Rightarrow> int option" where
  "mapped_position tok_text orig_text position =
     (case invert_loop (snd (strip_spaces tok_text)) Map.empty position of
        None \<Rightarrow> None
      | Some ns_position \<Rightarrow> map_of (snd (strip_spaces orig_text)) ns_position)"

section \<open>Properties\<close>

subsection \<open>The sliding window covers the document\<close>

lemma doc_spans_loop_covers:
  assumes "1 \<le> m" "1 \<le> st" "s < n"
  shows "\<exists>spans. doc_spans_loop n m st s acc = Some (acc @ spans) \<and> spans \<noteq> [] \<and>
           start (hd spans) = s \<and> span_end (last spans) = n - 1 \<and>
           (\<forall>p. s \<le> p \<and> p < n \<longrightarrow> (\<exists>d \<in> set spans. in_span d p)) \<and>
           successively overlap_step spans"
  using assms
proof (induction "nat (n - s)" arbitrary: s acc rule: less_induct)
  case less
  define len where "len = (if n - s > m then m else n - s)"
  define d where "d = \<lparr>start = s, span_length = len\<rparr>"
  have len1: "1 \<le> len" and lenr: "s + len \<le> n"
    using less.prems by (auto simp: len_def)
  have unf: "doc_spans_loop n m st s acc =
      (if s + len = n then Some (acc @ [d])
       else doc_spans_loop n m st (s + min len st) (acc @ [d]))"
    using less.prems by (subst doc_spans_loop.simps) (simp add: len_def d_def Let_def)
  show ?case
  proof (cases "s + len = n")
    case True
    have "in_span d p" if "s \<le> p" "p < n" for p
      using that True by (simp add: in_span_def span_end_def d_def)
    moreover have "span_end d = n - 1"
      using True by (simp add: span_end_def d_def)
    ultimately show ?thesis
      using unf True by (intro exI[of _ "[d]"]) (simp add: d_def)
  next
    case False
    define s' where "s' = s + min len st"
    have s': "s < s'" "s' \<le> s + len" "s' < n"
      using len1 lenr False less.prems by (auto simp: s'_def)
    have "nat (n - s') < nat (n - s)" using s' by simp
    from less.hyps[OF this less.prems(1,2) s'(3), of "acc @ [d]"]
    obtain spans where sp:
      "doc_spans_loop n m st s' (acc @ [d]) = Some ((acc @ [d]) @ spans)"
      "spans \<noteq> []" "start (hd spans) = s'" "span_end (last spans) = n - 1"
      "\<forall>p. s' \<le> p \<and> p < n \<longrightarrow> (\<exists>d \<in> set spans. in_span d p)"
      "successively overlap_step spans"
      by blast
    have cov: "\<exists>e \<in> set (d # spans). in_span e p" if "s \<le> p" "p < n" for p
    proof (cases "p < s'")
      case True
      then have "in_span d p"
        using that s' by (simp add: in_span_def span_end_def d_def)
      then show ?thesis by simp
    next
      case False
      then show ?thesis using sp(5) that by auto
    qed
    have step: "overlap_step d (hd spans)"
      using sp(3) s' by (simp add: overlap_step_def span_end_def d_def)
    have "successively overlap_step (d # spans)"
      using step sp(6) sp(2) by (simp add: successively_Cons)
    moreover have "doc_spans_loop n m st s acc = Some (acc @ d # spans)"
      using unf False sp(1) by (simp add: s'_def)
    moreover have "start (hd (d # spans)) = s" by (simp add: d_def)
    moreover have "span_end (last (d # spans)) = n - 1" using sp(2,4) by simp
    ultimately show ?thesis
      using cov by (intro exI[of _ "d # spans"]) simp
  qed
qed

text \<open>
  Claim C1. For a document of at least one subword token, a token budget
  \<open>max_tokens_for_doc \<ge> 1\<close> and a \<open>doc_stride \<ge> 1\<close>, the chunking loop returns, and the
  spans it returns are an ordered sequence that starts at token 0, in which each span
  starts to the right of its predecessor and no later than one past the predecessor's
  end (no gap), in which every token index of \<open>[0, len - 1]\<close> lies in at least one
  span, and whose last span ends at \<open>len - 1\<close> exactly.
\<close>

theorem doc_spans_cover_document:
  assumes "toks \<noteq> []" and "1 \<le> max_tokens_for_doc" and "1 \<le> stride"
  shows "\<exists>doc_spans.
           build_doc_spans toks max_tokens_for_doc stride = Some doc_spans \<and>
           doc_spans \<noteq> [] \<and>
           start (hd doc_spans) = 0 \<and>
           successively overlap_step doc_spans \<and>
           (\<forall>p. 0 \<le> p \<and> p < int (length toks) \<longrightarrow>
                  (\<exists>d \<in> set doc_spans. in_span d p)) \<and>
           span_end (last doc_spans) = int (length toks) - 1"
proof -
  have "0 < int (length toks)"
    using assms(1) by simp
  from doc_spans_loop_covers[OF assms(2) assms(3) this, of "[]"]
  show ?thesis
    unfolding build_doc_spans_def by auto
qed

theorem doc_spans_cover_document_witness:
  "[1, 2, 3, 4, 5, 6, 7] \<noteq> ([] :: nat list) \<and> (1::int) \<le> 5 \<and> (1::int) \<le> 2 \<and>
   build_doc_spans [1, 2, 3, 4, 5, 6, 7 :: nat] 5 2 =
     Some [\<lparr>start = 0, span_length = 5\<rparr>, \<lparr>start = 2, span_length = 5\<rparr>] \<and>
   (\<exists>doc_spans.
      build_doc_spans [1, 2, 3, 4, 5, 6, 7 :: nat] 5 2 = Some doc_spans \<and>
      doc_spans \<noteq> [] \<and>
      start (hd doc_spans) = 0 \<and>
      successively overlap_step doc_spans \<and>
      (\<forall>p. 0 \<le> p \<and> p < int (length [1, 2, 3, 4, 5, 6, 7 :: nat]) \<longrightarrow>
             (\<exists>d \<in> set doc_spans. in_span d p)) \<and>
      span_end (last doc_spans) = int (length [1, 2, 3, 4, 5, 6, 7 :: nat]) - 1)"
proof -
  have run: "build_doc_spans [1, 2, 3, 4, 5, 6, 7 :: nat] 5 2 =
      Some [\<lparr>start = 0, span_length = 5\<rparr>, \<lparr>start = 2, span_length = 5\<rparr>]"
    by (simp add: build_doc_spans_def doc_spans_loop.simps)
  have ne: "[1, 2, 3, 4, 5, 6, 7] \<noteq> ([] :: nat list)" by simp
  from doc_spans_cover_document[OF ne, of 5 2] run ne show ?thesis
    by simp
qed

subsection \<open>Floats\<close>

declare bit_length.simps [simp del]

lemma bit_length_le: "bit_length n \<le> k \<longleftrightarrow> n < 2 ^ k"
proof (induction n arbitrary: k rule: bit_length.induct)
  case (1 n)
  show ?case
  proof (cases "n = 0")
    case True
    then show ?thesis by (simp add: bit_length.simps[of 0])
  next
    case False
    have unf: "bit_length n = Suc (bit_length (n div 2))"
      using False by (simp add: bit_length.simps[of n])
    show ?thesis
    proof (cases k)
      case 0
      then show ?thesis using False unf by simp
    next
      case (Suc k')
      have "bit_length n \<le> k \<longleftrightarrow> bit_length (n div 2) \<le> k'"
        using unf Suc by simp
      also have "\<dots> \<longleftrightarrow> n div 2 < 2 ^ k'"
        using "1.IH"[OF False] .
      also have "\<dots> \<longleftrightarrow> n < 2 ^ k"
        using Suc by auto
      finally show ?thesis .
    qed
  qed
qed

lemma round53_cases:
  "(\<exists>q e'. round53 m e = Finite q e') \<or> round53 m e = PosInf \<or> round53 m e = NegInf"
  unfolding round53_def Let_def by (simp split: if_splits)

lemma round53_not_nan: "round53 m e \<noteq> NaN"
  using round53_cases[of m e] by auto

lemma py_float_of_int_Inr: "py_float_of_int n = Inr f \<Longrightarrow> \<exists>m e. f = Finite m e"
  unfolding py_float_of_int_def by (cases "round53 n 0") auto

lemma py_float_of_int_Inl: "py_float_of_int n = Inl err \<Longrightarrow> err = OverflowError"
  unfolding py_float_of_int_def by (cases "round53 n 0") auto

lemma float_001_times_Inr: "float_001_times n = Inr f \<Longrightarrow> f \<noteq> NaN"
  unfolding float_001_times_def by (cases "round53 n 0") (auto simp: round53_not_nan)

lemma float_001_times_Inl: "float_001_times n = Inl err \<Longrightarrow> err = OverflowError"
  unfolding float_001_times_def by (cases "round53 n 0") auto

lemma fl_add_finite_not_nan: "b \<noteq> NaN \<Longrightarrow> fl_add (Finite m e) b \<noteq> NaN"
  by (cases b) (simp_all add: round53_not_nan Let_def)

lemma fl_gt_irrefl: "\<not> fl_gt a a"
  by (cases a) simp_all

lemma fl_gt_below:
  "a \<noteq> NaN \<Longrightarrow> b \<noteq> NaN \<Longrightarrow> c \<noteq> NaN \<Longrightarrow> fl_gt b c \<Longrightarrow> \<not> fl_gt a c \<Longrightarrow>
   fl_gt b a \<and> \<not> fl_gt a b"
  by (cases a; cases b; cases c) auto

lemma round53_int_finite:
  assumes "\<bar>n\<bar> < 2 ^ 1023"
  shows "\<exists>m e. round53 n 0 = Finite m e"
proof -
  define a where "a = \<bar>n\<bar>"
  define L where "L = bit_length (nat a)"
  have a0: "0 \<le> a" by (simp add: a_def)
  have "nat a < 2 ^ 1023"
    using assms a0 by (simp add: a_def nat_less_iff)
  then have L: "L \<le> 1023"
    unfolding L_def by (simp add: bit_length_le)
  show ?thesis
  proof (cases "int L - 53 \<le> 0")
    case True
    have LL: "bit_length (nat a) = L" by (simp add: L_def)
    have aa: "\<bar>n\<bar> = a" by (simp add: a_def)
    show ?thesis
      using L True by (simp add: round53_def Let_def aa LL)
  next
    case False
    define k where "k = nat (int L - 53)"
    have k: "int L - 53 = int k" "0 < k" "k \<le> 970"
      using False L by (simp_all add: k_def)
    have "nat a < 2 ^ L"
      using bit_length_le[of "nat a" L] by (simp add: L_def)
    then have "a < 2 ^ L"
      using a0 by (simp add: nat_less_iff)
    moreover have "L = 53 + k" using k(1) by simp
    ultimately have "a < 2 ^ 53 * 2 ^ k"
      by (simp add: power_add)
    moreover have "a div 2 ^ k * 2 ^ k = a - a mod 2 ^ k"
      by (simp add: minus_mod_eq_div_mult)
    moreover have "0 \<le> a mod 2 ^ k" by simp
    ultimately have "a div 2 ^ k * 2 ^ k < 2 ^ 53 * 2 ^ k" by linarith
    then have q0: "a div 2 ^ k < 2 ^ 53"
      by (simp only: mult_less_cancel_right) simp
    have q0n: "0 \<le> a div 2 ^ k"
      using a0 by (simp add: pos_imp_zdiv_nonneg_iff)
    define q where "q = (if a mod 2 ^ k > 2 ^ (k - 1) \<or>
        (a mod 2 ^ k = 2 ^ (k - 1) \<and> odd (a div 2 ^ k))
      then a div 2 ^ k + 1 else a div 2 ^ k)"
    have q: "0 \<le> q" "q \<le> 2 ^ 53"
      using q0 q0n by (simp_all add: q_def)
    then have "nat q < 2 ^ 54"
      by (simp add: nat_less_iff)
    then have "bit_length (nat q) \<le> 54"
      by (simp add: bit_length_le)
    then have fits: "\<not> int (bit_length (nat q)) + (0 + int k) > 1024"
      using k(3) by simp
    have km1: "nat (int k - 1) = k - 1" by simp
    have LL: "bit_length (nat a) = L" by (simp add: L_def)
    have aa: "\<bar>n\<bar> = a" by (simp add: a_def)
    have kk: "int L - 53 = int k" by (rule k(1))
    have pos: "\<not> int k \<le> 0" using k(2) by simp
    show ?thesis
      using fits unfolding q_def
      by (auto simp: round53_def Let_def aa LL kk km1 split: if_splits)
  qed
qed

lemmas float_eval_simps = span_score_def float_001_times_def py_float_of_int_def round53_def
  bit_length.simps fl_add.simps float_value_def span_end_def in_span_def Let_def

subsection \<open>Max-context ownership\<close>

lemma span_score_Inl: "span_score d p = Inl err \<Longrightarrow> err = OverflowError"
  unfolding span_score_def Let_def
  by (auto split: sum.splits dest: float_001_times_Inl py_float_of_int_Inl)

lemma span_score_not_nan: "span_score d p = Inr s \<Longrightarrow> s \<noteq> NaN"
proof -
  assume a: "span_score d p = Inr s"
  then obtain w c where w: "float_001_times (span_length d) = Inr w"
    and c: "py_float_of_int (min (p - start d) (span_end d - p)) = Inr c"
    and s: "s = fl_add c w"
    unfolding span_score_def Let_def by (auto split: sum.splits)
  from py_float_of_int_Inr[OF c] obtain m e where "c = Finite m e" by blast
  then show ?thesis
    using float_001_times_Inr[OF w] s by (simp add: fl_add_finite_not_nan)
qed

lemma span_score_defined:
  assumes "in_span d p" and "span_length d < 2 ^ 1023"
  shows "\<exists>s. span_score d p = Inr s"
proof -
  have len: "1 \<le> span_length d"
    using assms(1) by (simp add: in_span_def span_end_def)
  then have "\<bar>span_length d\<bar> < 2 ^ 1023" using assms(2) by simp
  from round53_int_finite[OF this] obtain m e where "round53 (span_length d) 0 = Finite m e"
    by blast
  then have w: "\<exists>w. float_001_times (span_length d) = Inr w"
    by (simp add: float_001_times_def)
  have "0 \<le> min (p - start d) (span_end d - p)"
    and "min (p - start d) (span_end d - p) \<le> span_length d"
    using assms(1) by (auto simp: in_span_def span_end_def min_def)
  then have "\<bar>min (p - start d) (span_end d - p)\<bar> < 2 ^ 1023"
    using assms(2) by simp
  from round53_int_finite[OF this] obtain m' e' where
    "round53 (min (p - start d) (span_end d - p)) 0 = Finite m' e'"
    by blast
  then have c: "\<exists>c. py_float_of_int (min (p - start d) (span_end d - p)) = Inr c"
    by (simp add: py_float_of_int_def)
  from w c show ?thesis
    unfolding span_score_def Let_def by auto
qed

lemma max_context_loop_append:
  "max_context_loop p (xs @ ys) st =
     (case max_context_loop p xs st of
        Inl e \<Rightarrow> Inl e
      | Inr st' \<Rightarrow> max_context_loop p ys st')"
  by (induction xs arbitrary: st) (simp_all split: sum.splits)

lemma max_context_loop_snoc:
  "max_context_loop p (enumerate 0 (xs @ [x])) (None, None) =
     (case max_context_loop p (enumerate 0 xs) (None, None) of
        Inl e \<Rightarrow> Inl e
      | Inr st \<Rightarrow> max_context_step p st (length xs, x))"
  by (simp add: enumerate_append_eq max_context_loop_append split: sum.splits)

lemma owner_inv_loop:
  "owner_inv xs p (max_context_loop p (enumerate 0 xs) (None, None))"
proof (induction xs rule: rev_induct)
  case Nil
  show ?case by (simp add: owner_inv_def)
next
  case (snoc x xs)
  let ?prev = "max_context_loop p (enumerate 0 xs) (None, None)"
  have nth_old: "(xs @ [x]) ! j = xs ! j" if "j < length xs" for j
    using that by (simp add: nth_append)
  have nth_new: "(xs @ [x]) ! length xs = x" by simp
  show ?case
  proof (cases ?prev)
    case (Inl err)
    then have old: "err = OverflowError"
      "\<exists>j < length xs. in_span (xs ! j) p \<and> span_score (xs ! j) p = Inl OverflowError"
      using snoc by (simp_all add: owner_inv_def)
    from old(2) obtain j where j: "j < length xs" "in_span (xs ! j) p"
      "span_score (xs ! j) p = Inl OverflowError"
      by blast
    have "j < length (xs @ [x])" "in_span ((xs @ [x]) ! j) p"
      "span_score ((xs @ [x]) ! j) p = Inl OverflowError"
      using j by (simp_all add: nth_old)
    then have "\<exists>j < length (xs @ [x]). in_span ((xs @ [x]) ! j) p \<and>
        span_score ((xs @ [x]) ! j) p = Inl OverflowError"
      by blast
    then show ?thesis
      unfolding max_context_loop_snoc Inl using old(1) by (simp add: owner_inv_def)
  next
    case (Inr st)
    obtain bs bi where st: "st = (bs, bi)" by (cases st)
    have inv: "owner_inv xs p (Inr (bs, bi))"
      using snoc Inr st by simp
    have run: "max_context_loop p (enumerate 0 (xs @ [x])) (None, None) =
        max_context_step p (bs, bi) (length xs, x)"
      unfolding max_context_loop_snoc Inr st by simp
    show ?thesis
    proof (cases "in_span x p")
      case False
      then have step: "max_context_step p (bs, bi) (length xs, x) = Inr (bs, bi)"
        by (auto simp: in_span_def)
      have "owner_inv (xs @ [x]) p (Inr (bs, bi))"
      proof (cases bs)
        case None
        then have "bi = None" "\<forall>j < length xs. \<not> in_span (xs ! j) p"
          using inv by (auto simp: owner_inv_def split: option.splits)
        then have "\<forall>j < length (xs @ [x]). \<not> in_span ((xs @ [x]) ! j) p"
          using False by (auto simp: nth_append)
        then show ?thesis
          using None \<open>bi = None\<close> by (simp add: owner_inv_def)
      next
        case (Some sc)
        then obtain i where bi: "bi = Some i"
          using inv by (auto simp: owner_inv_def split: option.splits)
        have old: "i < length xs" "in_span (xs ! i) p" "span_score (xs ! i) p = Inr sc"
          "\<forall>j < length xs. in_span (xs ! j) p \<longrightarrow>
              (\<exists>sj. span_score (xs ! j) p = Inr sj \<and> \<not> fl_gt sj sc)"
          "\<forall>j < i. in_span (xs ! j) p \<longrightarrow>
              (\<exists>sj. span_score (xs ! j) p = Inr sj \<and> fl_gt sc sj)"
          using inv Some bi by (simp_all add: owner_inv_def)
        have all: "\<forall>j < length (xs @ [x]). in_span ((xs @ [x]) ! j) p \<longrightarrow>
            (\<exists>sj. span_score ((xs @ [x]) ! j) p = Inr sj \<and> \<not> fl_gt sj sc)"
          using old(4) False by (auto simp: nth_append)
        have before: "\<forall>j < i. in_span ((xs @ [x]) ! j) p \<longrightarrow>
            (\<exists>sj. span_score ((xs @ [x]) ! j) p = Inr sj \<and> fl_gt sc sj)"
          using old(1,5) by (auto simp: nth_append)
        show ?thesis
          using old(1,2,3) all before Some bi by (simp add: owner_inv_def nth_append)
      qed
      then show ?thesis using run step by simp
    next
      case True
      then have inside: "\<not> p < start x" "\<not> p > span_end x"
        by (simp_all add: in_span_def)
      show ?thesis
      proof (cases "span_score x p")
        case (Inl err)
        then have e: "err = OverflowError" by (rule span_score_Inl)
        have step: "max_context_step p (bs, bi) (length xs, x) = Inl OverflowError"
          using inside Inl e by simp
        have "length xs < length (xs @ [x])" "in_span ((xs @ [x]) ! length xs) p"
          "span_score ((xs @ [x]) ! length xs) p = Inl OverflowError"
          using True Inl e by simp_all
        then have "\<exists>j < length (xs @ [x]). in_span ((xs @ [x]) ! j) p \<and>
            span_score ((xs @ [x]) ! j) p = Inl OverflowError"
          by blast
        then show ?thesis
          using run step by (simp add: owner_inv_def)
      next
        case sx: (Inr sx)
        have sxn: "sx \<noteq> NaN" using sx by (rule span_score_not_nan)
        show ?thesis
        proof (cases bs)
          case None
          then have none: "bi = None" "\<forall>j < length xs. \<not> in_span (xs ! j) p"
            using inv by (auto simp: owner_inv_def split: option.splits)
          have step: "max_context_step p (bs, bi) (length xs, x) =
              Inr (Some sx, Some (length xs))"
            using inside sx None by simp
          have all: "\<forall>j < length (xs @ [x]). in_span ((xs @ [x]) ! j) p \<longrightarrow>
              (\<exists>sj. span_score ((xs @ [x]) ! j) p = Inr sj \<and> \<not> fl_gt sj sx)"
            using none(2) sx by (auto simp: nth_append fl_gt_irrefl less_Suc_eq)
          have before: "\<forall>j < length xs. in_span ((xs @ [x]) ! j) p \<longrightarrow>
              (\<exists>sj. span_score ((xs @ [x]) ! j) p = Inr sj \<and> fl_gt sx sj)"
            using none(2) by (auto simp: nth_append)
          have "owner_inv (xs @ [x]) p (Inr (Some sx, Some (length xs)))"
            using True sx all before by (simp add: owner_inv_def)
          then show ?thesis using run step by simp
        next
          case (Some sc)
          then obtain i where bi: "bi = Some i"
            using inv by (auto simp: owner_inv_def split: option.splits)
          have old: "i < length xs" "in_span (xs ! i) p" "span_score (xs ! i) p = Inr sc"
            "\<forall>j < length xs. in_span (xs ! j) p \<longrightarrow>
                (\<exists>sj. span_score (xs ! j) p = Inr sj \<and> \<not> fl_gt sj sc)"
            "\<forall>j < i. in_span (xs ! j) p \<longrightarrow>
                (\<exists>sj. span_score (xs ! j) p = Inr sj \<and> fl_gt sc sj)"
            using inv Some bi by (simp_all add: owner_inv_def)
          have scn: "sc \<noteq> NaN" using old(3) by (rule span_score_not_nan)
          show ?thesis
          proof (cases "fl_gt sx sc")
            case gt: True
            have step: "max_context_step p (bs, bi) (length xs, x) =
                Inr (Some sx, Some (length xs))"
              using inside sx Some gt by simp
            have lower: "\<exists>sj. span_score (xs ! j) p = Inr sj \<and> fl_gt sx sj \<and> \<not> fl_gt sj sx"
              if "j < length xs" "in_span (xs ! j) p" for j
            proof -
              from old(4) that obtain sj where sj: "span_score (xs ! j) p = Inr sj"
                "\<not> fl_gt sj sc"
                by blast
              have "sj \<noteq> NaN" using sj(1) by (rule span_score_not_nan)
              from fl_gt_below[OF this sxn scn gt sj(2)] sj(1) show ?thesis by simp
            qed
            have all: "\<forall>j < length (xs @ [x]). in_span ((xs @ [x]) ! j) p \<longrightarrow>
                (\<exists>sj. span_score ((xs @ [x]) ! j) p = Inr sj \<and> \<not> fl_gt sj sx)"
            proof (intro allI impI)
              fix j assume j: "j < length (xs @ [x])" "in_span ((xs @ [x]) ! j) p"
              show "\<exists>sj. span_score ((xs @ [x]) ! j) p = Inr sj \<and> \<not> fl_gt sj sx"
              proof (cases "j < length xs")
                case True
                with lower[of j] j(2) show ?thesis by (auto simp: nth_append)
              next
                case False
                then have "j = length xs" using j(1) by simp
                then show ?thesis using sx by (simp add: fl_gt_irrefl)
              qed
            qed
            have before: "\<forall>j < length xs. in_span ((xs @ [x]) ! j) p \<longrightarrow>
                (\<exists>sj. span_score ((xs @ [x]) ! j) p = Inr sj \<and> fl_gt sx sj)"
            proof (intro allI impI)
              fix j assume j: "j < length xs" "in_span ((xs @ [x]) ! j) p"
              with lower[of j] show
                "\<exists>sj. span_score ((xs @ [x]) ! j) p = Inr sj \<and> fl_gt sx sj"
                by (auto simp: nth_append)
            qed
            have "owner_inv (xs @ [x]) p (Inr (Some sx, Some (length xs)))"
              using True sx all before by (simp add: owner_inv_def)
            then show ?thesis using run step by simp
          next
            case ngt: False
            have step: "max_context_step p (bs, bi) (length xs, x) = Inr (Some sc, Some i)"
              using inside sx Some bi ngt by simp
            have all: "\<forall>j < length (xs @ [x]). in_span ((xs @ [x]) ! j) p \<longrightarrow>
                (\<exists>sj. span_score ((xs @ [x]) ! j) p = Inr sj \<and> \<not> fl_gt sj sc)"
            proof (intro allI impI)
              fix j assume j: "j < length (xs @ [x])" "in_span ((xs @ [x]) ! j) p"
              show "\<exists>sj. span_score ((xs @ [x]) ! j) p = Inr sj \<and> \<not> fl_gt sj sc"
              proof (cases "j < length xs")
                case True
                with old(4) j(2) show ?thesis by (auto simp: nth_append)
              next
                case False
                then have "j = length xs" using j(1) by simp
                then show ?thesis using sx ngt by simp
              qed
            qed
            have before: "\<forall>j < i. in_span ((xs @ [x]) ! j) p \<longrightarrow>
                (\<exists>sj. span_score ((xs @ [x]) ! j) p = Inr sj \<and> fl_gt sc sj)"
              using old(1,5) by (auto simp: nth_append)
            have "owner_inv (xs @ [x]) p (Inr (Some sc, Some i))"
              using old(1,2,3) all before by (simp add: owner_inv_def nth_append)
            then show ?thesis using run step by simp
          qed
        qed
      qed
    qed
  qed
qed

text \<open>
  Claim C2, as the code has it. For every span list (those of the chunker included) and
  every position \<open>p\<close> that lies in at least one span: when the score of every span
  containing \<open>p\<close> can be computed, exactly one span index is flagged by
  \<open>_check_is_max_context\<close>; the flagged span contains \<open>p\<close>, no span containing \<open>p\<close> has a
  higher score, and the flagged span has a higher score than every earlier span
  containing \<open>p\<close>. So the owner is the first span, in list order, among those whose
  score, as the floating-point arithmetic of the code computes it, is highest. The
  scores can be computed when the spans containing \<open>p\<close> are shorter than \<open>2 ^ 1023\<close>
  tokens; when the score of a span containing \<open>p\<close> cannot be computed, the function
  raises \<open>OverflowError\<close> for every index.
\<close>

theorem max_context_owner_is_first_best:
  assumes "\<exists>d \<in> set doc_spans. in_span d p"
  shows "((\<forall>d \<in> set doc_spans. in_span d p \<longrightarrow> (\<exists>s. span_score d p = Inr s)) \<longrightarrow>
            (\<exists>i < length doc_spans.
               (\<forall>k. check_is_max_context doc_spans k p = Inr (k = i)) \<and>
               in_span (doc_spans ! i) p \<and>
               (\<forall>j < length doc_spans. in_span (doc_spans ! j) p \<longrightarrow>
                    \<not> scores_higher (doc_spans ! j) (doc_spans ! i) p) \<and>
               (\<forall>j < i. in_span (doc_spans ! j) p \<longrightarrow>
                    scores_higher (doc_spans ! i) (doc_spans ! j) p))) \<and>
         ((\<exists>d \<in> set doc_spans. in_span d p \<and> (\<exists>e. span_score d p = Inl e)) \<longrightarrow>
            (\<forall>k. check_is_max_context doc_spans k p = Inl OverflowError)) \<and>
         (\<forall>d \<in> set doc_spans. in_span d p \<and> span_length d < 2 ^ 1023 \<longrightarrow>
            (\<exists>s. span_score d p = Inr s))"
proof -
  let ?r = "max_context_loop p (enumerate 0 doc_spans) (None, None)"
  let ?scored = "\<forall>d \<in> set doc_spans. in_span d p \<longrightarrow> (\<exists>s. span_score d p = Inr s)"
  let ?owner = "\<exists>i < length doc_spans.
      (\<forall>k. check_is_max_context doc_spans k p = Inr (k = i)) \<and>
      in_span (doc_spans ! i) p \<and>
      (\<forall>j < length doc_spans. in_span (doc_spans ! j) p \<longrightarrow>
           \<not> scores_higher (doc_spans ! j) (doc_spans ! i) p) \<and>
      (\<forall>j < i. in_span (doc_spans ! j) p \<longrightarrow>
           scores_higher (doc_spans ! i) (doc_spans ! j) p)"
  let ?failing = "\<exists>d \<in> set doc_spans. in_span d p \<and> (\<exists>e. span_score d p = Inl e)"
  let ?raises = "\<forall>k. check_is_max_context doc_spans k p = Inl OverflowError"
  have inv: "owner_inv doc_spans p ?r" by (rule owner_inv_loop)
  from assms obtain j0 where j0: "j0 < length doc_spans" "in_span (doc_spans ! j0) p"
    by (auto simp: in_set_conv_nth)
  have computed: "\<forall>d \<in> set doc_spans. in_span d p \<and> span_length d < 2 ^ 1023 \<longrightarrow>
      (\<exists>s. span_score d p = Inr s)"
  proof (intro ballI impI)
    fix d assume "in_span d p \<and> span_length d < 2 ^ 1023"
    then have "in_span d p" "span_length d < 2 ^ 1023" by (rule conjunct1, rule conjunct2)
    then show "\<exists>s. span_score d p = Inr s"
      by (rule span_score_defined)
  qed
  have "(?scored \<longrightarrow> ?owner) \<and> (?failing \<longrightarrow> ?raises)"
  proof (cases ?r)
    case (Inl err)
    then have err: "err = OverflowError"
      and bad: "\<exists>j < length doc_spans. in_span (doc_spans ! j) p \<and>
          span_score (doc_spans ! j) p = Inl OverflowError"
      using inv by (simp_all add: owner_inv_def)
    from bad obtain j where j: "j < length doc_spans" "in_span (doc_spans ! j) p"
      "span_score (doc_spans ! j) p = Inl OverflowError"
      by blast
    have mem: "doc_spans ! j \<in> set doc_spans" using j(1) by simp
    have first: "?scored \<longrightarrow> ?owner"
    proof
      assume ?scored
      then have "in_span (doc_spans ! j) p \<longrightarrow> (\<exists>s. span_score (doc_spans ! j) p = Inr s)"
        using mem by (rule bspec)
      then have "\<exists>s. span_score (doc_spans ! j) p = Inr s"
        using j(2) by (rule mp)
      then obtain s where "span_score (doc_spans ! j) p = Inr s" ..
      then have False using j(3) by simp
      then show ?owner ..
    qed
    have second: ?raises
      by (simp add: check_is_max_context_def Inl err)
    show ?thesis
    proof (rule conjI)
      show "?scored \<longrightarrow> ?owner" by (rule first)
      show "?failing \<longrightarrow> ?raises" by (rule impI) (rule second)
    qed
  next
    case (Inr st)
    obtain bs bi where st: "st = (bs, bi)" by (cases st)
    have inv': "owner_inv doc_spans p (Inr (bs, bi))"
      using inv Inr st by simp
    have "bs \<noteq> None"
    proof
      assume "bs = None"
      then have "\<forall>j < length doc_spans. \<not> in_span (doc_spans ! j) p"
        using inv' by (auto simp: owner_inv_def split: option.splits)
      then show False using j0 by simp
    qed
    then obtain sc where sc: "bs = Some sc" by (cases bs) simp_all
    then obtain i where bi: "bi = Some i"
      using inv' by (auto simp: owner_inv_def split: option.splits)
    have I: "i < length doc_spans" "in_span (doc_spans ! i) p"
      "span_score (doc_spans ! i) p = Inr sc"
      "\<forall>j < length doc_spans. in_span (doc_spans ! j) p \<longrightarrow>
          (\<exists>sj. span_score (doc_spans ! j) p = Inr sj \<and> \<not> fl_gt sj sc)"
      "\<forall>j < i. in_span (doc_spans ! j) p \<longrightarrow>
          (\<exists>sj. span_score (doc_spans ! j) p = Inr sj \<and> fl_gt sc sj)"
      using inv' sc bi by (simp_all add: owner_inv_def)
    have flagged: "\<forall>k. check_is_max_context doc_spans k p = Inr (k = i)"
      by (simp add: check_is_max_context_def Inr st bi)
    have none_higher: "\<forall>j < length doc_spans. in_span (doc_spans ! j) p \<longrightarrow>
        \<not> scores_higher (doc_spans ! j) (doc_spans ! i) p"
    proof (intro allI impI)
      fix j assume "j < length doc_spans" "in_span (doc_spans ! j) p"
      with I(4) obtain sj where "span_score (doc_spans ! j) p = Inr sj" "\<not> fl_gt sj sc"
        by blast
      then show "\<not> scores_higher (doc_spans ! j) (doc_spans ! i) p"
        using I(3) by (simp add: scores_higher_def)
    qed
    have earlier_lower: "\<forall>j < i. in_span (doc_spans ! j) p \<longrightarrow>
        scores_higher (doc_spans ! i) (doc_spans ! j) p"
    proof (intro allI impI)
      fix j assume "j < i" "in_span (doc_spans ! j) p"
      with I(5) obtain sj where "span_score (doc_spans ! j) p = Inr sj" "fl_gt sc sj"
        by blast
      then show "scores_higher (doc_spans ! i) (doc_spans ! j) p"
        using I(3) by (simp add: scores_higher_def)
    qed
    have owner: ?owner
      using I(1,2) flagged none_higher earlier_lower by (intro exI[of _ i] conjI)
    have second: "?failing \<longrightarrow> ?raises"
    proof
      assume ?failing
      then obtain d e where d: "d \<in> set doc_spans" "in_span d p" "span_score d p = Inl e"
        by auto
      from d(1) obtain j where j: "j < length doc_spans" "doc_spans ! j = d"
        by (auto simp: in_set_conv_nth)
      from I(4) j(1) d(2) obtain sj where "span_score (doc_spans ! j) p = Inr sj"
        unfolding j(2)[symmetric] by blast
      then show ?raises using d(3) j(2) by simp
    qed
    show ?thesis
    proof (rule conjI)
      show "?scored \<longrightarrow> ?owner" by (rule impI) (rule owner)
      show "?failing \<longrightarrow> ?raises" by (rule second)
    qed
  qed
  then have c1: "?scored \<longrightarrow> ?owner" and c2: "?failing \<longrightarrow> ?raises"
    by (rule conjunct1, rule conjunct2)
  show ?thesis
    by (intro conjI) (rule c1, rule c2, rule computed)
qed

theorem max_context_owner_is_first_best_witness:
  "(\<exists>d \<in> set [\<lparr>start = 0, span_length = 5\<rparr>, \<lparr>start = 2, span_length = 5\<rparr>]. in_span d 3) \<and>
   (\<exists>i < length [\<lparr>start = 0, span_length = 5\<rparr>, \<lparr>start = 2, span_length = 5\<rparr>].
      (\<forall>k. check_is_max_context
              [\<lparr>start = 0, span_length = 5\<rparr>, \<lparr>start = 2, span_length = 5\<rparr>] k 3 = Inr (k = i)))"
proof -
  let ?S = "[\<lparr>start = 0, span_length = 5\<rparr>, \<lparr>start = 2, span_length = 5\<rparr>]"
  have h: "\<exists>d \<in> set ?S. in_span d 3"
    by (simp add: in_span_def span_end_def)
  note t = max_context_owner_is_first_best[OF h]
  have small: "\<forall>d \<in> set ?S. span_length d < 2 ^ 1023" by simp
  have scores: "\<forall>d \<in> set ?S. in_span d 3 \<longrightarrow> (\<exists>s. span_score d 3 = Inr s)"
    using t[THEN conjunct2, THEN conjunct2] small by blast
  from t[THEN conjunct1, THEN mp, OF scores] obtain i where
    "i < length ?S" "\<forall>k. check_is_max_context ?S k 3 = Inr (k = i)"
    by blast
  then have "\<exists>i < length ?S. \<forall>k. check_is_max_context ?S k 3 = Inr (k = i)"
    by blast
  with h show ?thesis by (intro conjI)
qed

text \<open>
  The claim as the specification words it fails on a chunker output: for seven tokens,
  a budget of 5 and a stride of 2 the spans are \<open>(0, 5)\<close> and \<open>(2, 5)\<close>; at position 3
  both contain the position, both have the same length and the same score
  (\<open>min(3, 1) + 0.01 * 5\<close> and \<open>min(1, 3) + 0.01 * 5\<close>), and the code flags the first
  span, whose score is not higher than the second's.
\<close>

theorem max_context_tie_counterexample:
  "build_doc_spans [1, 2, 3, 4, 5, 6, 7 :: nat] 5 2 =
     Some [\<lparr>start = 0, span_length = 5\<rparr>, \<lparr>start = 2, span_length = 5\<rparr>] \<and>
   in_span \<lparr>start = 0, span_length = 5\<rparr> 3 \<and>
   in_span \<lparr>start = 2, span_length = 5\<rparr> 3 \<and>
   check_is_max_context [\<lparr>start = 0, span_length = 5\<rparr>, \<lparr>start = 2, span_length = 5\<rparr>] 0 3
     = Inr True \<and>
   check_is_max_context [\<lparr>start = 0, span_length = 5\<rparr>, \<lparr>start = 2, span_length = 5\<rparr>] 1 3
     = Inr False \<and>
   span_score \<lparr>start = 0, span_length = 5\<rparr> 3 = span_score \<lparr>start = 2, span_length = 5\<rparr> 3 \<and>
   \<not> strictly_highest_score [\<lparr>start = 0, span_length = 5\<rparr>, \<lparr>start = 2, span_length = 5\<rparr>] 0 3"
  by (simp add: build_doc_spans_def doc_spans_loop.simps check_is_max_context_def
      strictly_highest_score_def scores_higher_def float_eval_simps upt_rec)

text \<open>
  Rounding decides between spans of different lengths. For 119 tokens, a budget of 118
  and a stride of 101 the spans are \<open>(0, 118)\<close> and \<open>(101, 18)\<close>; at position 115 the
  scores \<open>2 + 0.01 * 118\<close> and \<open>3 + 0.01 * 18\<close> are equal as exact numbers, but the
  floats are \<open>3.1799999999999997\<close> and \<open>3.18\<close>, and the second span is the owner.
\<close>

lemma max_context_rounding_example:
  "build_doc_spans (replicate 119 x) 118 101 =
     Some [\<lparr>start = 0, span_length = 118\<rparr>, \<lparr>start = 101, span_length = 18\<rparr>] \<and>
   span_score \<lparr>start = 0, span_length = 118\<rparr> 115 = Inr (Finite 7160723407519088 (- 51)) \<and>
   span_score \<lparr>start = 101, span_length = 18\<rparr> 115 = Inr (Finite 7160723407519089 (- 51)) \<and>
   check_is_max_context [\<lparr>start = 0, span_length = 118\<rparr>, \<lparr>start = 101, span_length = 18\<rparr>] 0 115
     = Inr False \<and>
   check_is_max_context [\<lparr>start = 0, span_length = 118\<rparr>, \<lparr>start = 101, span_length = 18\<rparr>] 1 115
     = Inr True"
  by (simp add: build_doc_spans_def doc_spans_loop.simps check_is_max_context_def
      float_eval_simps)

subsection \<open>The answer-span projector\<close>

declare answer_end_loop.simps [simp del] answer_start_loop.simps [simp del]

lemma find_append_cases:
  "find P (xs @ ys) = (case find P xs of Some r \<Rightarrow> Some r | None \<Rightarrow> find P ys)"
  by (induction xs) simp_all

lemma answer_end_loop_find:
  "answer_end_loop doc tok s e =
     find (span_matches doc tok) (map (\<lambda>new_end. (s, new_end)) (rev [s..e]))"
proof (induction doc tok s e rule: answer_end_loop.induct)
  case (1 doc tok s e)
  show ?case
  proof (cases "e > s - 1")
    case False
    then show ?thesis by (simp add: answer_end_loop.simps[of doc tok s e])
  next
    case True
    then have up: "rev [s..e] = e # rev [s..e - 1]"
      by (simp add: upto_rec2)
    show ?thesis
    proof (cases "join space (py_slice doc s (e + 1)) = tok")
      case True
      then show ?thesis
        using \<open>e > s - 1\<close> up
        by (simp add: answer_end_loop.simps[of doc tok s e] span_matches_def)
    next
      case False
      then have nomatch: "\<not> span_matches doc tok (s, e)"
        by (simp add: span_matches_def)
      have "answer_end_loop doc tok s e = answer_end_loop doc tok s (e - 1)"
        using \<open>e > s - 1\<close> False by (simp add: answer_end_loop.simps[of doc tok s e])
      also have "\<dots> = find (span_matches doc tok) (map (\<lambda>new_end. (s, new_end)) (rev [s..e - 1]))"
        using "1.IH"[OF \<open>e > s - 1\<close> refl False] .
      finally show ?thesis
        using up nomatch by simp
    qed
  qed
qed

lemma answer_start_loop_find:
  "answer_start_loop doc tok s e = find (span_matches doc tok) (candidate_spans s e)"
proof (induction doc tok s e rule: answer_start_loop.induct)
  case (1 doc tok s e)
  show ?case
  proof (cases "s < e + 1")
    case False
    then show ?thesis
      by (simp add: answer_start_loop.simps[of doc tok s e] candidate_spans_def)
  next
    case True
    then have split: "candidate_spans s e =
        map (\<lambda>new_end. (s, new_end)) (rev [s..e]) @ candidate_spans (s + 1) e"
      by (simp add: candidate_spans_def upto_rec1[of s e])
    show ?thesis
    proof (cases "answer_end_loop doc tok s e")
      case (Some r)
      then have "answer_start_loop doc tok s e = Some r"
        using True by (simp add: answer_start_loop.simps[of doc tok s e])
      moreover have "find (span_matches doc tok) (candidate_spans s e) = Some r"
        using Some answer_end_loop_find[of doc tok s e]
        by (simp add: split find_append_cases)
      ultimately show ?thesis by simp
    next
      case None
      then have "answer_start_loop doc tok s e = answer_start_loop doc tok (s + 1) e"
        using True by (simp add: answer_start_loop.simps[of doc tok s e])
      also have "\<dots> = find (span_matches doc tok) (candidate_spans (s + 1) e)"
        using "1.IH"[OF True None] .
      also have "\<dots> = find (span_matches doc tok) (candidate_spans s e)"
        using None answer_end_loop_find[of doc tok s e]
        by (simp add: split find_append_cases)
      finally show ?thesis .
    qed
  qed
qed

lemma in_concat_map: "y \<in> set (concat (map f xs)) \<longleftrightarrow> (\<exists>x \<in> set xs. y \<in> set (f x))"
  by (induction xs) simp_all

lemma mem_candidate_spans:
  "(a, b) \<in> set (candidate_spans s e) \<longleftrightarrow> s \<le> a \<and> a \<le> b \<and> b \<le> e"
proof
  assume "(a, b) \<in> set (candidate_spans s e)"
  then obtain x where x: "x \<in> set [s..e]"
      and ab: "(a, b) \<in> set (map (\<lambda>new_end. (x, new_end)) (rev [x..e]))"
    unfolding candidate_spans_def in_concat_map by blast
  from ab have "a = x" "x \<le> b" "b \<le> e" by auto
  with x show "s \<le> a \<and> a \<le> b \<and> b \<le> e" by simp
next
  assume h: "s \<le> a \<and> a \<le> b \<and> b \<le> e"
  then have "a \<in> set [s..e]" by simp
  moreover have "(a, b) \<in> set (map (\<lambda>new_end. (a, new_end)) (rev [a..e]))"
    using h by simp
  ultimately show "(a, b) \<in> set (candidate_spans s e)"
    unfolding candidate_spans_def in_concat_map by blast
qed

lemma sorted_candidates_from:
  "sorted_wrt span_before (concat (map (\<lambda>a. map (\<lambda>b. (a, b)) (rev [a..e])) [s..e']))"
proof (induction "nat (e' - s + 1)" arbitrary: s)
  case 0
  then show ?case by simp
next
  case (Suc k)
  then have le: "s \<le> e'" by simp
  have row: "sorted_wrt span_before (map (\<lambda>b. (s, b)) (rev [s..e]))"
    by (simp add: sorted_wrt_map span_before_def sorted_wrt_rev)
  have rest: "sorted_wrt span_before (concat (map (\<lambda>a. map (\<lambda>b. (a, b)) (rev [a..e])) [s + 1..e']))"
    using Suc by (intro Suc.hyps(1)) simp
  have cross: "span_before x y"
    if "x \<in> set (map (\<lambda>b. (s, b)) (rev [s..e]))"
      and "y \<in> set (concat (map (\<lambda>a. map (\<lambda>b. (a, b)) (rev [a..e])) [s + 1..e']))" for x y
  proof -
    have "fst x = s" using that(1) by auto
    moreover have "s + 1 \<le> fst y" using that(2) by auto
    ultimately show ?thesis by (simp add: span_before_def)
  qed
  have "concat (map (\<lambda>a. map (\<lambda>b. (a, b)) (rev [a..e])) [s..e']) =
      map (\<lambda>b. (s, b)) (rev [s..e]) @
      concat (map (\<lambda>a. map (\<lambda>b. (a, b)) (rev [a..e])) [s + 1..e'])"
    by (subst upto_rec1[OF le]) simp
  then show ?case
    using row rest cross by (simp only: sorted_wrt_append) blast
qed

lemma sorted_candidate_spans: "sorted_wrt span_before (candidate_spans s e)"
  unfolding candidate_spans_def by (rule sorted_candidates_from)

lemma span_before_asym: "span_before x y \<Longrightarrow> \<not> span_before y x"
  by (auto simp: span_before_def)

lemma find_sorted_first:
  assumes "sorted_wrt R xs" and "\<And>x y. R x y \<Longrightarrow> \<not> R y x" and "find P xs = Some r"
  shows "r \<in> set xs \<and> P r \<and> (\<forall>c \<in> set xs. R c r \<longrightarrow> \<not> P c)"
proof -
  from assms(3) obtain i where i: "i < length xs" "P (xs ! i)" "r = xs ! i"
      "\<forall>j < i. \<not> P (xs ! j)"
    unfolding find_Some_iff by blast
  have "\<not> P c" if "c \<in> set xs" "R c r" for c
  proof -
    from that(1) obtain j where j: "j < length xs" "c = xs ! j"
      by (auto simp: in_set_conv_nth)
    have "\<not> i < j"
    proof
      assume "i < j"
      then have "R r c"
        using assms(1) i(1,3) j by (simp add: sorted_wrt_iff_nth_less)
      then show False using assms(2) that(2) by blast
    qed
    moreover have "i \<noteq> j"
      using assms(2) that(2) i(3) j(2) by blast
    ultimately have "j < i" by simp
    then show ?thesis using i(4) j(2) by simp
  qed
  then show ?thesis using i by simp
qed

text \<open>
  Claim C3. For every document token list, coarse span and answer text (with or without
  \<open>input_start \<le> input_end\<close>), the projector returns the first pair, in the enumeration
  with \<open>new_start\<close> ascending from \<open>input_start\<close> and \<open>new_end\<close> descending from
  \<open>input_end\<close>, whose space-joined token slice equals the space-joined re-tokenized
  answer text. The enumeration holds exactly the pairs with
  \<open>input_start \<le> new_start \<le> new_end \<le> input_end\<close>, in that order; when some pair
  matches, the result matches and no pair before it does; when none matches, the result
  is \<open>(input_start, input_end)\<close>.
\<close>

theorem improve_answer_span_first_match:
  fixes doc_tokens :: "pystr list" and input_start input_end :: int
    and tokenize :: "pystr \<Rightarrow> pystr list" and orig_answer_text :: pystr
  defines "r \<equiv> improve_answer_span doc_tokens input_start input_end tokenize orig_answer_text"
    and "tok \<equiv> join space (tokenize orig_answer_text)"
    and "cands \<equiv> candidate_spans input_start input_end"
  shows "r = (case find (span_matches doc_tokens tok) cands of
                Some m \<Rightarrow> m
              | None \<Rightarrow> (input_start, input_end)) \<and>
         set cands = {(a, b). input_start \<le> a \<and> a \<le> b \<and> b \<le> input_end} \<and>
         sorted_wrt span_before cands \<and>
         ((\<exists>c \<in> set cands. span_matches doc_tokens tok c) \<longrightarrow>
            r \<in> set cands \<and> span_matches doc_tokens tok r \<and>
            (\<forall>c \<in> set cands. span_before c r \<longrightarrow> \<not> span_matches doc_tokens tok c)) \<and>
         ((\<forall>c \<in> set cands. \<not> span_matches doc_tokens tok c) \<longrightarrow>
            r = (input_start, input_end))"
proof -
  have eq: "r = (case find (span_matches doc_tokens tok) cands of
                   Some m \<Rightarrow> m
                 | None \<Rightarrow> (input_start, input_end))"
    by (simp add: r_def tok_def cands_def improve_answer_span_def answer_start_loop_find)
  have set_eq: "set cands = {(a, b). input_start \<le> a \<and> a \<le> b \<and> b \<le> input_end}"
    unfolding cands_def
    by (intro set_eqI) (simp add: split_paired_all mem_candidate_spans)
  have sorted: "sorted_wrt span_before cands"
    unfolding cands_def by (rule sorted_candidate_spans)
  have found: "r \<in> set cands \<and> span_matches doc_tokens tok r \<and>
      (\<forall>c \<in> set cands. span_before c r \<longrightarrow> \<not> span_matches doc_tokens tok c)"
    if "\<exists>c \<in> set cands. span_matches doc_tokens tok c"
  proof -
    from that obtain m where m: "find (span_matches doc_tokens tok) cands = Some m"
      by (cases "find (span_matches doc_tokens tok) cands") (auto simp: find_None_iff)
    then have "r = m" using eq by simp
    with find_sorted_first[OF sorted span_before_asym m] show ?thesis by simp
  qed
  have missing: "r = (input_start, input_end)"
    if "\<forall>c \<in> set cands. \<not> span_matches doc_tokens tok c"
  proof -
    from that have "find (span_matches doc_tokens tok) cands = None"
      by (simp add: find_None_iff)
    then show ?thesis using eq by simp
  qed
  show ?thesis
    using eq set_eq sorted found missing by blast
qed

text \<open>
  The specification's example: over the tokens \<open>the man went ( 1895 - 1943 ) .\<close> with
  the coarse span \<open>(3, 8)\<close> and the answer \<open>1895\<close>, the projector returns \<open>(4, 4)\<close>.
\<close>

theorem improve_answer_span_first_match_witness:
  "(\<exists>c \<in> set (candidate_spans 3 8).
      span_matches
        [map of_char ''the'', map of_char ''man'', map of_char ''went'', map of_char ''('',
         map of_char ''1895'', map of_char ''-'', map of_char ''1943'', map of_char '')'',
         map of_char ''.'']
        (join space ((\<lambda>t. [t]) (map of_char ''1895''))) c) \<and>
   improve_answer_span
     [map of_char ''the'', map of_char ''man'', map of_char ''went'', map of_char ''('',
      map of_char ''1895'', map of_char ''-'', map of_char ''1943'', map of_char '')'',
      map of_char ''.'']
     3 8 (\<lambda>t. [t]) (map of_char ''1895'') = (4, 4)"
proof -
  let ?doc = "[map of_char ''the'', map of_char ''man'', map of_char ''went'', map of_char ''('',
      map of_char ''1895'', map of_char ''-'', map of_char ''1943'', map of_char '')'',
      map of_char ''.''] :: pystr list"
  have "improve_answer_span ?doc 3 8 (\<lambda>t. [t]) (map of_char ''1895'') =
      (case find (span_matches ?doc (join space ((\<lambda>t. [t]) (map of_char ''1895''))))
              (candidate_spans 3 8) of
         Some m \<Rightarrow> m
       | None \<Rightarrow> (3, 8))"
    using improve_answer_span_first_match[of ?doc 3 8 "\<lambda>t. [t]" "map of_char ''1895''"]
    by (rule conjunct1)
  also have "\<dots> = (4, 4)"
    by (simp add: candidate_spans_def span_matches_def py_slice_def slice_index_def space_def)
  finally have res: "improve_answer_span ?doc 3 8 (\<lambda>t. [t]) (map of_char ''1895'') = (4, 4)" .
  have "(4, 4) \<in> set (candidate_spans 3 8)"
    by (simp add: mem_candidate_spans)
  moreover have "span_matches ?doc (join space ((\<lambda>t. [t]) (map of_char ''1895''))) (4, 4)"
    by (simp add: span_matches_def py_slice_def slice_index_def space_def)
  ultimately show ?thesis using res by blast
qed

subsection \<open>What the converter yields\<close>

lemma span_loop_yields:
  "span_loop cv ex i ds xs uid yielded = (y', uid', e) \<Longrightarrow>
   \<exists>new. y' = yielded @ new \<and> uid' = uid + int (length new) \<and>
     (\<forall>k < length new. \<exists>si d.
         build_feature cv ex i ds si d (uid + int k) = Inr (Some (new ! k)))"
proof (induction xs arbitrary: uid yielded)
  case Nil
  then show ?case by simp
next
  case (Cons x xs)
  obtain si d where x: "x = (si, d)" by (cases x)
  show ?case
  proof (cases "build_feature cv ex i ds si d uid")
    case (Inl err)
    then show ?thesis using Cons.prems x by simp
  next
    case (Inr r)
    show ?thesis
    proof (cases r)
      case None
      then have "span_loop cv ex i ds xs uid yielded = (y', uid', e)"
        using Cons.prems x Inr by simp
      from Cons.IH[OF this] show ?thesis .
    next
      case (Some f)
      then have "span_loop cv ex i ds xs (uid + 1) (yielded @ [f]) = (y', uid', e)"
        using Cons.prems x Inr by simp
      from Cons.IH[OF this] obtain new where new:
        "y' = (yielded @ [f]) @ new" "uid' = uid + 1 + int (length new)"
        "\<forall>k < length new. \<exists>si d.
            build_feature cv ex i ds si d (uid + 1 + int k) = Inr (Some (new ! k))"
        by blast
      have "\<exists>si d. build_feature cv ex i ds si d (uid + int k) = Inr (Some ((f # new) ! k))"
        if "k < length (f # new)" for k
      proof (cases k)
        case 0
        then show ?thesis using Inr Some by auto
      next
        case (Suc j)
        then have "j < length new" using that by simp
        with new(3) obtain si' d' where
          "build_feature cv ex i ds si' d' (uid + 1 + int j) = Inr (Some (new ! j))"
          by blast
        moreover have "uid + 1 + int j = uid + int k" using Suc by simp
        ultimately have "build_feature cv ex i ds si' d' (uid + int k) = Inr (Some ((f # new) ! k))"
          using Suc by simp
        then show ?thesis by blast
      qed
      then show ?thesis
        using new(1,2) by (intro exI[of _ "f # new"]) simp
    qed
  qed
qed

lemma example_loop_step:
  assumes "prepare example = Inr ex"
    and "build_doc_spans (all_doc_tokens ex)
           (max_seq_length cv - int (length (query_tokens ex)) - 3) (doc_stride cv) = Some ds"
    and "span_loop cv ex i ds (enumerate 0 ds) uid yielded = (y1, uid1, e1)"
  shows "example_loop cv prepare ((i, example) # xs) uid yielded =
     (case e1 of Some e \<Rightarrow> (y1, Raised e) | None \<Rightarrow> example_loop cv prepare xs uid1 y1)"
  using assms by (cases e1) simp_all

declare example_loop.simps(2) [simp del]

lemma example_loop_yields:
  "example_loop cv prepare xs uid yielded = (y', fin) \<Longrightarrow>
   \<exists>new. y' = yielded @ new \<and>
     (\<forall>k < length new. \<exists>ex i ds si d.
         build_feature cv ex i ds si d (uid + int k) = Inr (Some (new ! k)))"
proof (induction xs arbitrary: uid yielded)
  case Nil
  then have "y' = yielded @ []" by simp
  then show ?case by (intro exI[of _ "[]"]) simp
next
  case (Cons x xs)
  obtain i example where x: "x = (i, example)" by (cases x)
  show ?case
  proof (cases "prepare example")
    case (Inl err)
    then have "y' = yielded"
      using Cons.prems x by (simp add: example_loop.simps(2))
    then show ?thesis by simp
  next
    case (Inr ex)
    define m where "m = max_seq_length cv - int (length (query_tokens ex)) - 3"
    show ?thesis
    proof (cases "build_doc_spans (all_doc_tokens ex) m (doc_stride cv)")
      case None
      then have "y' = yielded"
        using Cons.prems x Inr by (simp add: example_loop.simps(2) m_def)
      then show ?thesis by simp
    next
      case (Some ds)
      obtain y1 uid1 e1 where sl:
        "span_loop cv ex i ds (enumerate 0 ds) uid yielded = (y1, uid1, e1)"
        by (cases "span_loop cv ex i ds (enumerate 0 ds) uid yielded")
      from span_loop_yields[OF sl] obtain new1 where new1:
        "y1 = yielded @ new1" "uid1 = uid + int (length new1)"
        "\<forall>k < length new1. \<exists>si d.
            build_feature cv ex i ds si d (uid + int k) = Inr (Some (new1 ! k))"
        by blast
      have step: "example_loop cv prepare (x # xs) uid yielded =
          (case e1 of Some e \<Rightarrow> (y1, Raised e) | None \<Rightarrow> example_loop cv prepare xs uid1 y1)"
        unfolding x using Inr Some[unfolded m_def] sl by (rule example_loop_step)
      show ?thesis
      proof (cases e1)
        case (Some err)
        then have "y' = yielded @ new1"
          using Cons.prems step new1(1) by simp
        moreover have "\<forall>k < length new1. \<exists>ex i ds si d.
            build_feature cv ex i ds si d (uid + int k) = Inr (Some (new1 ! k))"
          using new1(3) by meson
        ultimately show ?thesis by (intro exI[of _ new1] conjI)
      next
        case None
        then have "example_loop cv prepare xs uid1 y1 = (y', fin)"
          using Cons.prems step by simp
        from Cons.IH[OF this] obtain new2 where new2:
          "y' = y1 @ new2"
          "\<forall>k < length new2. \<exists>ex i ds si d.
              build_feature cv ex i ds si d (uid1 + int k) = Inr (Some (new2 ! k))"
          by blast
        have "\<exists>ex i ds si d.
            build_feature cv ex i ds si d (uid + int k) = Inr (Some ((new1 @ new2) ! k))"
          if "k < length (new1 @ new2)" for k
        proof (cases "k < length new1")
          case True
          with new1(3) obtain si d where
            "build_feature cv ex i ds si d (uid + int k) = Inr (Some (new1 ! k))"
            by blast
          then have "build_feature cv ex i ds si d (uid + int k) = Inr (Some ((new1 @ new2) ! k))"
            using True by (simp add: nth_append)
          then show ?thesis by blast
        next
          case False
          then have j: "k - length new1 < length new2" using that by simp
          from new2(2) j obtain ex' i' ds' si' d' where bf:
            "build_feature cv ex' i' ds' si' d' (uid1 + int (k - length new1)) =
               Inr (Some (new2 ! (k - length new1)))"
            by blast
          have eq: "uid1 + int (k - length new1) = uid + int k"
            using False new1(2) by simp
          have nth: "(new1 @ new2) ! k = new2 ! (k - length new1)"
            using False by (simp add: nth_append)
          have "build_feature cv ex' i' ds' si' d' (uid + int k) =
               Inr (Some ((new1 @ new2) ! k))"
            using bf unfolding eq nth .
          then show ?thesis by blast
        qed
        then show ?thesis
          using new1(1) new2(1) by (intro exI[of _ "new1 @ new2"]) simp
      qed
    qed
  qed
qed

lemma examples_to_features_built:
  assumes "examples_to_features cv prepare examples = (fs, fin)" and "k < length fs"
  shows "\<exists>ex i ds si d.
           build_feature cv ex i ds si d (1000000000 + int k) = Inr (Some (fs ! k))"
proof -
  from example_loop_yields[OF assms(1)[unfolded examples_to_features_def]]
  obtain new where "fs = [] @ new"
    "\<forall>k < length new. \<exists>ex i ds si d.
        build_feature cv ex i ds si d (1000000000 + int k) = Inr (Some (new ! k))"
    by blast
  then show ?thesis using assms(2) by simp
qed

lemma build_feature_SomeE:
  assumes "build_feature cv ex i ds si d uid = Inr (Some f)"
  obtains b wn nell sp ep where
    "span_rows ex ds si d = Inr b"
    "pad_concept_ids (max_wn_concept_length cv) (row_wn_concept_ids b) = Inr wn"
    "pad_concept_ids (max_nell_concept_length cv) (row_nell_concept_ids b) = Inr nell"
    "span_labels ex (is_training cv) d = Inr (Some (sp, ep))"
    "unique_id f = uid" "wn_concept_ids f = wn" "nell_concept_ids f = nell"
    "example_index f = i" "doc_span_index f = si"
    "input_ids f = convert_tokens_to_ids cv (row_tokens b)"
    "start_position f = sp" "end_position f = ep"
proof (cases "span_rows ex ds si d")
  case (Inl e)
  then show ?thesis using assms by (simp add: build_feature_def)
next
  case b: (Inr b)
  show ?thesis
  proof (cases "pad_concept_ids (max_wn_concept_length cv) (row_wn_concept_ids b)")
    case (Inl e)
    then show ?thesis using assms b by (simp add: build_feature_def)
  next
    case wn: (Inr wn)
    show ?thesis
    proof (cases "pad_concept_ids (max_nell_concept_length cv) (row_nell_concept_ids b)")
      case (Inl e)
      then show ?thesis using assms b wn by (simp add: build_feature_def)
    next
      case nell: (Inr nell)
      show ?thesis
      proof (cases "span_labels ex (is_training cv) d")
        case (Inl e)
        then show ?thesis using assms b wn nell by (simp add: build_feature_def)
      next
        case (Inr l)
        show ?thesis
        proof (cases l)
          case None
          then show ?thesis using assms b wn nell Inr by (simp add: build_feature_def)
        next
          case (Some p)
          obtain sp ep where p: "p = (sp, ep)" by (cases p)
          have lab: "span_labels ex (is_training cv) d = Inr (Some (sp, ep))"
            using Inr Some p by simp
          have "build_feature cv ex i ds si d uid = Inr (Some
             \<lparr>unique_id = uid, example_index = i, doc_span_index = si,
              tokens = row_tokens b, token_to_orig_map = row_token_to_orig_map b,
              token_is_max_context = row_token_is_max_context b,
              input_ids = convert_tokens_to_ids cv (row_tokens b),
              input_mask = replicate (length (convert_tokens_to_ids cv (row_tokens b))) 1,
              segment_ids = row_segment_ids b, wn_concept_ids = wn, nell_concept_ids = nell,
              start_position = sp, end_position = ep,
              is_impossible = example_is_impossible ex\<rparr>)"
            by (simp add: build_feature_def b wn nell lab)
          with assms have f: "f = \<lparr>unique_id = uid, example_index = i, doc_span_index = si,
              tokens = row_tokens b, token_to_orig_map = row_token_to_orig_map b,
              token_is_max_context = row_token_is_max_context b,
              input_ids = convert_tokens_to_ids cv (row_tokens b),
              input_mask = replicate (length (convert_tokens_to_ids cv (row_tokens b))) 1,
              segment_ids = row_segment_ids b, wn_concept_ids = wn, nell_concept_ids = nell,
              start_position = sp, end_position = ep,
              is_impossible = example_is_impossible ex\<rparr>"
            by simp
          show ?thesis
            by (rule that[OF b wn nell lab]) (simp_all add: f)
        qed
      qed
    qed
  qed
qed

lemma pad_concept_ids_width:
  "pad_concept_ids m rows = Inr padded \<Longrightarrow>
   padded = map (pad_concept_row m) rows \<and> (\<forall>row \<in> set padded. int (length row) = m)"
  unfolding pad_concept_ids_def
  by (auto simp: Let_def list_all_iff split: if_splits)

lemma pad_concept_row_short:
  "int (length row) \<le> m \<Longrightarrow>
   pad_concept_row m row = row @ replicate (nat m - length row) 0"
  by (simp add: pad_concept_row_def py_slice_def slice_index_def Let_def nat_diff_distrib')

lemma pad_concept_row_long:
  "0 \<le> m \<Longrightarrow> m \<le> int (length row) \<Longrightarrow> pad_concept_row m row = take (nat m) row"
  by (simp add: pad_concept_row_def py_slice_def slice_index_def Let_def min_def)

lemma pad_concept_row_length:
  "0 \<le> m \<Longrightarrow> int (length (pad_concept_row m row)) = m"
  by (cases "int (length row) \<le> m")
     (simp_all add: pad_concept_row_short pad_concept_row_long)


text \<open>
  The spans of the sample run are \<open>(0, 2)\<close> and \<open>(1, 2)\<close>: position 0 lies in the
  first only, position 2 in the second only, and at position 1 both score
  \<open>0 + 0.01 * 2\<close>, so the first is flagged.
\<close>

lemma sample_run_max_context:
  "check_is_max_context [\<lparr>start = 0, span_length = 2\<rparr>, \<lparr>start = 1, span_length = 2\<rparr>] k 0
     = Inr (k = 0)"
  "check_is_max_context [\<lparr>start = 0, span_length = 2\<rparr>, \<lparr>start = 1, span_length = 2\<rparr>] k 1
     = Inr (k = 0)"
  "check_is_max_context [\<lparr>start = 0, span_length = 2\<rparr>, \<lparr>start = 1, span_length = 2\<rparr>] k 2
     = Inr (k = 1)"
  by (auto simp: check_is_max_context_def float_eval_simps)

lemmas sample_run_simps = examples_to_features_def build_doc_spans_def doc_spans_loop.simps
  build_feature_def span_rows_def doc_token_step_def py_get_def append_row_def
  pad_concept_ids_def pad_concept_row_def py_slice_def slice_index_def span_labels_def
  sample_converter_def sample_prepared_def Let_def example_loop.simps(2) upt_rec
  sample_run_max_context in_span_def span_end_def eval_nat_numeral

lemma sample_run_unique_ids:
  "map unique_id (fst (examples_to_features sample_converter (\<lambda>u::unit. Inr sample_prepared) [()]))
     = [1000000000, 1000000001]"
  by (simp add: sample_run_simps)

lemma sample_run_wn_concept_ids:
  "map wn_concept_ids
     (fst (examples_to_features sample_converter (\<lambda>u::unit. Inr sample_prepared) [()])) =
   [[[0, 0], [7, 8], [0, 0], [1, 0], [0, 0], [0, 0]],
    [[0, 0], [7, 8], [0, 0], [0, 0], [2, 3], [0, 0]]]"
  by (simp add: sample_run_simps)

lemma sample_run_nell_concept_ids:
  "map nell_concept_ids
     (fst (examples_to_features sample_converter (\<lambda>u::unit. Inr sample_prepared) [()])) =
   [[[0], [0], [0], [4], [5], [0]], [[0], [0], [0], [5], [0], [0]]]"
  by (simp add: sample_run_simps)

subsection \<open>Concept rows have the width of their table\<close>

text \<open>
  Claim C4. Every feature the converter yields (also in a run that later raises) has,
  for both tables, only concept-id rows whose length is that table's maximum concept
  length: the rows are the assembled rows of the span, each rewritten by
  \<open>pad_concept_row\<close>, which appends the id 0 up to the maximum to a row that is not
  longer than it and cuts a longer row down to it.
\<close>

theorem concept_rows_have_table_width:
  assumes "f \<in> set (fst (examples_to_features cv prepare examples))"
  shows "(\<forall>row \<in> set (wn_concept_ids f). int (length row) = max_wn_concept_length cv) \<and>
         (\<forall>row \<in> set (nell_concept_ids f). int (length row) = max_nell_concept_length cv) \<and>
         (\<exists>ex ds si d b. span_rows ex ds si d = Inr b \<and>
             wn_concept_ids f =
               map (pad_concept_row (max_wn_concept_length cv)) (row_wn_concept_ids b) \<and>
             nell_concept_ids f =
               map (pad_concept_row (max_nell_concept_length cv)) (row_nell_concept_ids b)) \<and>
         (\<forall>m row. int (length row) \<le> m \<longrightarrow>
             pad_concept_row m row = row @ replicate (nat m - length row) 0) \<and>
         (\<forall>m row. 0 \<le> m \<and> m \<le> int (length row) \<longrightarrow>
             pad_concept_row m row = take (nat m) row)"
proof -
  obtain fs fin where run: "examples_to_features cv prepare examples = (fs, fin)"
    by (cases "examples_to_features cv prepare examples")
  from assms have "f \<in> set fs" by (simp add: run)
  then obtain k where k: "k < length fs" "fs ! k = f"
    unfolding in_set_conv_nth by blast
  from examples_to_features_built[OF run k(1)] obtain ex i ds si d where
    built: "build_feature cv ex i ds si d (1000000000 + int k) = Inr (Some f)"
    unfolding k(2) by blast
  from built show ?thesis
  proof (rule build_feature_SomeE)
    fix b wn nell
    assume b: "span_rows ex ds si d = Inr b"
      and wn: "pad_concept_ids (max_wn_concept_length cv) (row_wn_concept_ids b) = Inr wn"
      and nell: "pad_concept_ids (max_nell_concept_length cv) (row_nell_concept_ids b) = Inr nell"
      and fw: "wn_concept_ids f = wn" and fn: "nell_concept_ids f = nell"
    note w = pad_concept_ids_width[OF wn, folded fw]
      and n = pad_concept_ids_width[OF nell, folded fn]
    have "span_rows ex ds si d = Inr b \<and>
        wn_concept_ids f =
          map (pad_concept_row (max_wn_concept_length cv)) (row_wn_concept_ids b) \<and>
        nell_concept_ids f =
          map (pad_concept_row (max_nell_concept_length cv)) (row_nell_concept_ids b)"
      using b w n by simp
    then have ex: "\<exists>ex ds si d b. span_rows ex ds si d = Inr b \<and>
        wn_concept_ids f =
          map (pad_concept_row (max_wn_concept_length cv)) (row_wn_concept_ids b) \<and>
        nell_concept_ids f =
          map (pad_concept_row (max_nell_concept_length cv)) (row_nell_concept_ids b)"
      by (intro exI)
    have short: "\<forall>m row. int (length row) \<le> m \<longrightarrow>
        pad_concept_row m row = row @ replicate (nat m - length row) 0"
      by (simp add: pad_concept_row_short)
    have long: "\<forall>m row. 0 \<le> m \<and> m \<le> int (length row) \<longrightarrow>
        pad_concept_row m row = take (nat m) row"
      by (simp add: pad_concept_row_long)
    show ?thesis
      using conjunct2[OF w] conjunct2[OF n] ex short long by (intro conjI)
  qed
qed

theorem concept_rows_have_table_width_witness:
  "length (fst (examples_to_features sample_converter (\<lambda>u::unit. Inr sample_prepared) [()])) = 2 \<and>
   list_all (\<lambda>f. list_all (\<lambda>row. int (length row) = 2) (wn_concept_ids f) \<and>
                 list_all (\<lambda>row. int (length row) = 1) (nell_concept_ids f))
     (fst (examples_to_features sample_converter (\<lambda>u::unit. Inr sample_prepared) [()])) \<and>
   map wn_concept_ids
     (fst (examples_to_features sample_converter (\<lambda>u::unit. Inr sample_prepared) [()])) =
   [[[0, 0], [7, 8], [0, 0], [1, 0], [0, 0], [0, 0]],
    [[0, 0], [7, 8], [0, 0], [0, 0], [2, 3], [0, 0]]]"
proof -
  let ?fs = "fst (examples_to_features sample_converter (\<lambda>u::unit. Inr sample_prepared) [()])"
  have len: "length ?fs = 2"
    using arg_cong[OF sample_run_unique_ids, of length] by simp
  have "list_all (\<lambda>row. int (length row) = 2) (wn_concept_ids f) \<and>
        list_all (\<lambda>row. int (length row) = 1) (nell_concept_ids f)" if "f \<in> set ?fs" for f
    using concept_rows_have_table_width[OF that]
    by (simp add: list_all_iff sample_converter_def)
  then have "list_all (\<lambda>f. list_all (\<lambda>row. int (length row) = 2) (wn_concept_ids f) \<and>
                 list_all (\<lambda>row. int (length row) = 1) (nell_concept_ids f)) ?fs"
    by (simp add: list_all_iff)
  then show ?thesis
    using len sample_run_wn_concept_ids by simp
qed

subsection \<open>Unique ids\<close>

text \<open>
  Claim C7, as the code has it. The counter is a local variable of \<open>__call__\<close>, set to
  1000000000 when a call starts. Within one call the \<open>k\<close>-th feature yielded has the
  unique id \<open>1000000000 + k\<close>, so every feature's id is strictly greater than the id of
  every feature the same call yielded before it.
\<close>

theorem unique_ids_count_up_within_one_call:
  assumes "examples_to_features cv prepare examples = (fs, fin)"
  shows "map unique_id fs = map (\<lambda>k. 1000000000 + int k) [0 ..< length fs] \<and>
         (\<forall>j k. j < k \<and> k < length fs \<longrightarrow> unique_id (fs ! j) < unique_id (fs ! k))"
proof -
  have ids: "unique_id (fs ! k) = 1000000000 + int k" if "k < length fs" for k
  proof -
    from examples_to_features_built[OF assms that] obtain ex i ds si d where
      "build_feature cv ex i ds si d (1000000000 + int k) = Inr (Some (fs ! k))"
      by blast
    then show ?thesis by (rule build_feature_SomeE)
  qed
  then have "map unique_id fs = map (\<lambda>k. 1000000000 + int k) [0 ..< length fs]"
    by (intro nth_equalityI) simp_all
  moreover have "\<forall>j k. j < k \<and> k < length fs \<longrightarrow> unique_id (fs ! j) < unique_id (fs ! k)"
    by (simp add: ids)
  ultimately show ?thesis by (intro conjI)
qed

theorem unique_ids_count_up_within_one_call_witness:
  "examples_to_features sample_converter (\<lambda>u::unit. Inr sample_prepared) [()] =
     (fst (examples_to_features sample_converter (\<lambda>u::unit. Inr sample_prepared) [()]),
      snd (examples_to_features sample_converter (\<lambda>u::unit. Inr sample_prepared) [()])) \<and>
   map unique_id
     (fst (examples_to_features sample_converter (\<lambda>u::unit. Inr sample_prepared) [()])) =
   map (\<lambda>k. 1000000000 + int k) [0 ..< 2]"
proof -
  let ?r = "examples_to_features sample_converter (\<lambda>u::unit. Inr sample_prepared) [()]"
  have run: "?r = (fst ?r, snd ?r)" by simp
  have len: "length (fst ?r) = 2"
    using arg_cong[OF sample_run_unique_ids, of length] by simp
  from unique_ids_count_up_within_one_call[OF run]
  have "map unique_id (fst ?r) = map (\<lambda>k. 1000000000 + int k) [0 ..< length (fst ?r)]"
    by (rule conjunct1)
  then show ?thesis using run len by simp
qed

text \<open>
  Across epochs the claim fails: with two epochs over the sample run, the features
  pulled in the process have the ids 1000000000, 1000000001 and then 1000000000 again,
  so the third feature's id is not greater than the second's.
\<close>

theorem unique_ids_restart_each_epoch_counterexample:
  "map unique_id
     (features_over_epochs sample_converter (\<lambda>u::unit. Inr sample_prepared) [()] 2) =
     [1000000000, 1000000001, 1000000000, 1000000001] \<and>
   \<not> unique_id
        (features_over_epochs sample_converter (\<lambda>u::unit. Inr sample_prepared) [()] 2 ! 1)
      < unique_id
        (features_over_epochs sample_converter (\<lambda>u::unit. Inr sample_prepared) [()] 2 ! 2)"
  by (simp add: sample_run_simps)

subsection \<open>Token-budget batching\<close>

lemma batch_reader_loop_entries:
  "concat (map fst (batch_reader_loop bs tok fs batch tot max_len yielded)) =
     concat (map fst yielded) @ batch @ map feature_entry fs"
proof (induction fs arbitrary: batch tot max_len yielded)
  case Nil
  show ?case by simp
next
  case (Cons f fs)
  show ?case
    by (simp add: Let_def Cons.IH)
qed

lemma batch_reader_loop_last:
  "batch \<noteq> [] \<or> fs \<noteq> [] \<Longrightarrow>
   batch_reader_loop bs tok fs batch tot max_len yielded \<noteq> [] \<and>
   fst (last (batch_reader_loop bs tok fs batch tot max_len yielded)) \<noteq> []"
proof (induction fs arbitrary: batch tot max_len yielded)
  case Nil
  then show ?case by simp
next
  case (Cons f fs)
  show ?case
    by (simp add: Let_def Cons.IH)
qed

text \<open>
  Claim C5. In the token-budget mode a feature joins the pending batch exactly when
  \<open>(current_count + 1) * running_max_length \<le> batch_size\<close>, the running maximum taken
  with the candidate's own sequence length; otherwise the pending batch is yielded and
  the new pending batch holds the rejected feature alone, with its length as the new
  running maximum. At the end of the features a non-empty pending batch is yielded;
  the batches yielded hold every feature, in order, and a run over at least one feature
  ends with a non-empty batch. With \<open>batch_size = 10\<close> and sequence lengths 4, 4, 3 the
  batches are the first two features and then the third alone.
\<close>

theorem token_budget_batching:
  "(\<forall>feature rest batch tot max_len yielded.
      batch_reader_loop batch_size True (feature # rest) batch tot max_len yielded =
        (if (int (length batch) + 1) * max max_len (int (length (input_ids feature)))
              \<le> batch_size
         then batch_reader_loop batch_size True rest (batch @ [feature_entry feature])
                (tot + int (length (input_ids feature)))
                (max max_len (int (length (input_ids feature)))) yielded
         else batch_reader_loop batch_size True rest [feature_entry feature]
                (int (length (input_ids feature))) (int (length (input_ids feature)))
                (yielded @ [(batch, tot)]))) \<and>
   (\<forall>batch tot max_len yielded. batch \<noteq> [] \<longrightarrow>
      batch_reader_loop batch_size True [] batch tot max_len yielded
        = yielded @ [(batch, tot)]) \<and>
   concat (map fst (batch_reader features batch_size True)) = map feature_entry features \<and>
   (features \<noteq> [] \<longrightarrow>
      batch_reader features batch_size True \<noteq> [] \<and>
      fst (last (batch_reader features batch_size True)) \<noteq> []) \<and>
   (\<forall>f1 f2 f3.
      length (input_ids f1) = 4 \<and> length (input_ids f2) = 4 \<and> length (input_ids f3) = 3 \<longrightarrow>
      batch_reader [f1, f2, f3] 10 True =
        [([feature_entry f1, feature_entry f2], 8), ([feature_entry f3], 3)])"
proof -
  have step: "\<forall>feature rest batch tot max_len yielded.
      batch_reader_loop batch_size True (feature # rest) batch tot max_len yielded =
        (if (int (length batch) + 1) * max max_len (int (length (input_ids feature)))
              \<le> batch_size
         then batch_reader_loop batch_size True rest (batch @ [feature_entry feature])
                (tot + int (length (input_ids feature)))
                (max max_len (int (length (input_ids feature)))) yielded
         else batch_reader_loop batch_size True rest [feature_entry feature]
                (int (length (input_ids feature))) (int (length (input_ids feature)))
                (yielded @ [(batch, tot)]))"
    by (simp add: Let_def)
  have final: "\<forall>batch tot max_len yielded. batch \<noteq> [] \<longrightarrow>
      batch_reader_loop batch_size True [] batch tot max_len yielded
        = yielded @ [(batch, tot)]"
    by simp
  have all: "concat (map fst (batch_reader features batch_size True)) = map feature_entry features"
    by (simp add: batch_reader_def batch_reader_loop_entries)
  have nonempty: "features \<noteq> [] \<longrightarrow>
      batch_reader features batch_size True \<noteq> [] \<and>
      fst (last (batch_reader features batch_size True)) \<noteq> []"
    using batch_reader_loop_last[of "[]" features] by (simp add: batch_reader_def)
  have example: "\<forall>f1 f2 f3.
      length (input_ids f1) = 4 \<and> length (input_ids f2) = 4 \<and> length (input_ids f3) = 3 \<longrightarrow>
      batch_reader [f1, f2, f3] 10 True =
        [([feature_entry f1, feature_entry f2], 8), ([feature_entry f3], 3)]"
    by (simp add: batch_reader_def Let_def)
  show ?thesis
    using step final all nonempty example by (intro conjI)
qed

theorem token_budget_batching_witness:
  "length (input_ids (feature_of_length 4)) = 4 \<and>
   length (input_ids (feature_of_length 3)) = 3 \<and>
   batch_reader [feature_of_length 4, feature_of_length 4, feature_of_length 3] 10 True =
     [([feature_entry (feature_of_length 4), feature_entry (feature_of_length 4)], 8),
      ([feature_entry (feature_of_length 3)], 3)]"
proof -
  have l4: "length (input_ids (feature_of_length 4)) = 4"
    and l3: "length (input_ids (feature_of_length 3)) = 3"
    by (simp_all add: feature_of_length_def)
  note ex = token_budget_batching[of 10 "[]", THEN conjunct2, THEN conjunct2,
      THEN conjunct2, THEN conjunct2, rule_format,
      of "feature_of_length 4" "feature_of_length 4" "feature_of_length 3"]
  from ex l4 l3 show ?thesis by simp
qed

subsection \<open>Batches leave the wrapper in groups of \<open>dev_count\<close>\<close>

lemma take_drop_past:
  "length xs = n \<Longrightarrow>
   take (n + k) (xs @ ys) = xs @ take k ys \<and> drop (n + k) (xs @ ys) = drop k ys"
  by simp

lemma dev_batches_loop_groups:
  assumes "0 < n" and "length buf < n"
  shows "dev_batches_loop prep (int n) bs buf yielded =
     (yielded @ take (((length buf + length bs) div n) * n) (buf @ map prep bs),
      drop (((length buf + length bs) div n) * n) (buf @ map prep bs))"
  using assms(2)
proof (induction bs arbitrary: buf yielded)
  case Nil
  then show ?case by simp
next
  case (Cons b bs)
  let ?buf1 = "buf @ [prep b]"
  show ?case
  proof (cases "length ?buf1 = n")
    case True
    have q: "((length buf + length (b # bs)) div n) * n = n + (length bs div n) * n"
    proof -
      have h: "length buf + length (b # bs) = n + length bs" using True by simp
      have "(n + length bs) div n = 1 + length bs div n" using assms(1) by simp
      then show ?thesis unfolding h by simp
    qed
    have app: "buf @ map prep (b # bs) = ?buf1 @ map prep bs" by simp
    have "dev_batches_loop prep (int n) (b # bs) buf yielded =
        dev_batches_loop prep (int n) bs [] (yielded @ ?buf1)"
      using True Cons.prems by (simp add: Let_def)
    also have "\<dots> = ((yielded @ ?buf1) @ take ((length bs div n) * n) (map prep bs),
        drop ((length bs div n) * n) (map prep bs))"
      using Cons.IH[of "[]" "yielded @ ?buf1"] assms(1) by simp
    also have "\<dots> = (yielded @ take (n + (length bs div n) * n) (?buf1 @ map prep bs),
        drop (n + (length bs div n) * n) (?buf1 @ map prep bs))"
      by (simp only: take_drop_past[OF True], simp)
    finally show ?thesis unfolding q app .
  next
    case False
    then have less: "length ?buf1 < n" using Cons.prems by simp
    have "dev_batches_loop prep (int n) (b # bs) buf yielded =
        dev_batches_loop prep (int n) bs ?buf1 yielded"
      using False Cons.prems by (simp add: Let_def)
    also have "\<dots> = (yielded @ take (((length ?buf1 + length bs) div n) * n) (?buf1 @ map prep bs),
        drop (((length ?buf1 + length bs) div n) * n) (?buf1 @ map prep bs))"
      by (rule Cons.IH[OF less])
    finally show ?thesis by simp
  qed
qed

lemma dev_batches_loop_nonpositive:
  "dev_count \<le> 0 \<Longrightarrow> dev_batches_loop prep dev_count bs [] yielded = (yielded, [])"
  by (induction bs arbitrary: yielded) (auto simp: Let_def)

text \<open>
  Claim C10. With \<open>dev_count \<ge> 1\<close>, an epoch over \<open>n\<close> prepared batches yields exactly
  the first \<open>(n div dev_count) * dev_count\<close> of them, in order, so what is yielded is a
  whole number of groups of \<open>dev_count\<close>; the remaining \<open>n mod dev_count\<close> batches, fewer
  than \<open>dev_count\<close>, are what is left in the buffer at the end of the epoch, and the
  consumer of the wrapper receives, epoch after epoch, only the yielded groups. (With
  \<open>dev_count \<le> 0\<close> nothing is buffered and nothing is yielded.)
\<close>

theorem batches_released_in_dev_count_groups:
  fixes prepare_batch_data :: "'a \<Rightarrow> 'b" and batches :: "'a list" and dev_count :: int
  defines "d \<equiv> nat dev_count"
  defines "released \<equiv> (length batches div d) * d"
  shows "(1 \<le> dev_count \<longrightarrow>
            dev_batches_epoch prepare_batch_data dev_count batches =
              (map prepare_batch_data (take released batches),
               map prepare_batch_data (drop released batches)) \<and>
            d dvd released \<and>
            length (drop released batches) = length batches mod d \<and>
            length (drop released batches) < d \<and>
            wrapper_yields prepare_batch_data dev_count epochs =
              concat (map (\<lambda>bs. map prepare_batch_data (take ((length bs div d) * d) bs))
                        epochs)) \<and>
         (dev_count \<le> 0 \<longrightarrow>
            dev_batches_epoch prepare_batch_data dev_count batches = ([], []))"
proof (intro conjI impI)
  assume pos: "1 \<le> dev_count"
  then have d: "0 < d" "int d = dev_count" by (simp_all add: d_def)
  have epoch: "dev_batches_epoch prepare_batch_data dev_count bs =
      (map prepare_batch_data (take ((length bs div d) * d) bs),
       map prepare_batch_data (drop ((length bs div d) * d) bs))" for bs
    using dev_batches_loop_groups[of d "[]" prepare_batch_data bs "[]"] d
    by (simp add: dev_batches_epoch_def take_map drop_map)
  show "dev_batches_epoch prepare_batch_data dev_count batches =
      (map prepare_batch_data (take released batches),
       map prepare_batch_data (drop released batches))"
    unfolding released_def by (rule epoch)
  show "d dvd released" by (simp add: released_def)
  show m: "length (drop released batches) = length batches mod d"
    by (simp add: released_def minus_div_mult_eq_mod)
  show "length (drop released batches) < d"
    unfolding m using d(1) by simp
  show "wrapper_yields prepare_batch_data dev_count epochs =
      concat (map (\<lambda>bs. map prepare_batch_data (take ((length bs div d) * d) bs)) epochs)"
    by (simp add: wrapper_yields_def epoch)
next
  assume "dev_count \<le> 0"
  then show "dev_batches_epoch prepare_batch_data dev_count batches = ([], [])"
    by (simp add: dev_batches_epoch_def dev_batches_loop_nonpositive)
qed

theorem batches_released_in_dev_count_groups_witness:
  "(1::int) \<le> 2 \<and>
   dev_batches_epoch (\<lambda>b::nat. b * 10) 2 [1, 2, 3, 4, 5] = ([10, 20, 30, 40], [50]) \<and>
   wrapper_yields (\<lambda>b::nat. b * 10) 2 [[1, 2, 3, 4, 5], [6, 7, 8]] = [10, 20, 30, 40, 60, 70]"
proof -
  have pos: "(1::int) \<le> 2" by simp
  note t = batches_released_in_dev_count_groups[of 2 "\<lambda>b::nat. b * 10" "[1, 2, 3, 4, 5]"
      "[[1, 2, 3, 4, 5], [6, 7, 8]]", THEN conjunct1, rule_format, OF pos]
  from t show ?thesis by simp
qed

subsection \<open>The example reader and the answers it cannot recover\<close>

lemma take_length_eq_prefix: "take (length needle) hay = needle \<longleftrightarrow> prefix needle hay"
proof
  assume "take (length needle) hay = needle"
  then have "hay = needle @ drop (length needle) hay"
    by (metis append_take_drop_id)
  then show "prefix needle hay" by (metis prefixI)
next
  assume "prefix needle hay"
  then show "take (length needle) hay = needle" by (auto simp: prefix_def)
qed

lemma py_find_from_result:
  "0 \<le> i \<Longrightarrow>
   (sublist needle hay \<longrightarrow> i \<le> py_find_from hay needle i) \<and>
   (\<not> sublist needle hay \<longrightarrow> py_find_from hay needle i = - 1)"
proof (induction hay arbitrary: i)
  case Nil
  then show ?case by simp
next
  case (Cons c cs)
  show ?case
  proof (cases "prefix needle (c # cs)")
    case True
    then show ?thesis
      using Cons.prems by (simp add: take_length_eq_prefix sublist_Cons_right)
  next
    case False
    have "py_find_from (c # cs) needle i = py_find_from cs needle (i + 1)"
      using False by (simp add: take_length_eq_prefix del: take_Suc_Cons)
    moreover have "sublist needle (c # cs) \<longleftrightarrow> sublist needle cs"
      using False by (simp add: sublist_Cons_right)
    moreover have "0 \<le> i + 1" using Cons.prems by simp
    ultimately show ?thesis
      using Cons.IH[of "i + 1"] by auto
  qed
qed

lemma py_find_not_found: "py_find hay needle = - 1 \<longleftrightarrow> \<not> sublist needle hay"
  using py_find_from_result[of 0 needle hay] by (auto simp: py_find_def)

lemma passage_loop_returns:
  "prev \<or> doc_tokens \<noteq> [] \<Longrightarrow> \<exists>r. passage_loop cs doc_tokens offsets prev = Inr r"
  by (induction cs arbitrary: doc_tokens offsets prev) auto

text \<open>
  Where the offsets index the map, the reader does what the comment of lines 161-166
  says. For a training QA pair that is not impossible, has an answer, and whose offsets
  \<open>start\<close> and \<open>start + len - 1\<close> index the char-to-word map (to the words \<open>s\<close> and
  \<open>e\<close>): the reader emits the example, with the word span \<open>(s, e)\<close>, exactly when the
  space-joined words \<open>doc_tokens[s:e+1]\<close> contain the whitespace-normalized answer text
  as a substring, and otherwise drops the pair without raising.
\<close>

lemma read_qa_recoverable_iff:
  fixes wt :: "pystr \<Rightarrow> pystr list" and doc :: "pystr list" and offsets :: "int list"
  assumes "\<not> (v2 \<and> qa_is_impossible q)"
    and "qa_answers q = a # others"
    and "py_get offsets (answer_start a) = Inr s"
    and "py_get offsets (answer_start a + int (length (answer_text a)) - 1) = Inr e"
  defines "actual_text \<equiv> join space (py_slice doc s (e + 1))"
    and "cleaned_answer_text \<equiv> join space (wt (answer_text a))"
  shows "read_qa wt True v2 doc offsets q =
           (if sublist cleaned_answer_text actual_text
            then Inr (Some \<lparr>qas_id = qa_id q, question_text = replace_nbsp (qa_query q),
                         example_doc_tokens = doc, orig_answer_text = Some (answer_text a),
                         word_start_position = Some s, word_end_position = Some e,
                         answer_is_impossible = False\<rparr>)
            else Inr None)"
proof -
  have imp: "(if True \<and> v2 then qa_is_impossible q else False) = False"
    using assms(1) by simp
  have first: "py_get (qa_answers q) 0 = Inr a"
    by (simp add: assms(2) py_get_def)
  have run: "read_qa wt True v2 doc offsets q =
      (if py_find actual_text cleaned_answer_text = - 1 then Inr None
       else Inr (Some \<lparr>qas_id = qa_id q, question_text = replace_nbsp (qa_query q),
                         example_doc_tokens = doc, orig_answer_text = Some (answer_text a),
                         word_start_position = Some s, word_end_position = Some e,
                         answer_is_impossible = False\<rparr>))"
    unfolding read_qa_def Let_def imp first actual_text_def cleaned_answer_text_def
    by (simp add: assms(3,4))
  show ?thesis
    unfolding run by (simp add: py_find_not_found)
qed

text \<open>
  An offset that does not index the map raises \<open>IndexError\<close>, before the substring test
  is reached.
\<close>

lemma read_qa_offset_out_of_range:
  fixes wt :: "pystr \<Rightarrow> pystr list" and doc :: "pystr list" and offsets :: "int list"
  assumes "\<not> (v2 \<and> qa_is_impossible q)"
    and "qa_answers q = a # others"
    and "py_get offsets (answer_start a) = Inl err \<or>
         py_get offsets (answer_start a + int (length (answer_text a)) - 1) = Inl err"
  shows "read_qa wt True v2 doc offsets q = Inl IndexError"
proof -
  have imp: "(if True \<and> v2 then qa_is_impossible q else False) = False"
    using assms(1) by simp
  have first: "py_get (qa_answers q) 0 = Inr a"
    by (simp add: assms(2) py_get_def)
  have only: "py_get offsets i = Inl x \<Longrightarrow> x = IndexError" for i x
    by (auto simp: py_get_def split: if_splits)
  show ?thesis
  proof (cases "py_get offsets (answer_start a)")
    case (Inl x)
    then show ?thesis
      unfolding read_qa_def Let_def imp first using only[OF Inl] by simp
  next
    case (Inr s)
    with assms(3) have bad:
      "py_get offsets (answer_start a + int (length (answer_text a)) - 1) = Inl err"
      by simp
    show ?thesis
      unfolding read_qa_def Let_def imp first using Inr bad only[OF bad] by simp
  qed
qed

text \<open>
  The loop over the QA pairs of a passage: while no pair raises, the examples appended
  are those of the pairs that are not dropped, in the order of the pairs, so the list
  grows by at most one example for each pair; the first pair that raises ends the loop
  with its error, and nothing is returned.
\<close>

lemma qas_loop_collects:
  assumes "\<forall>q \<in> set qas. \<exists>r. read_qa wt tr v2 doc offsets q = Inr r"
  shows "qas_loop wt tr v2 doc offsets qas acc =
           Inr (acc @ List.map_filter (kept_example wt tr v2 doc offsets) qas)"
  using assms
proof (induction qas arbitrary: acc)
  case Nil
  then show ?case by (simp add: List.map_filter_simps)
next
  case (Cons x xs)
  from Cons.prems obtain r where r: "read_qa wt tr v2 doc offsets x = Inr r" by auto
  have rest: "\<forall>q \<in> set xs. \<exists>r. read_qa wt tr v2 doc offsets q = Inr r"
    using Cons.prems by simp
  show ?case
  proof (cases r)
    case None
    then show ?thesis
      using r Cons.IH[OF rest, of acc] by (simp add: List.map_filter_simps kept_example_def)
  next
    case (Some ex)
    then show ?thesis
      using r Cons.IH[OF rest, of "acc @ [ex]"]
      by (simp add: List.map_filter_simps kept_example_def)
  qed
qed

lemma qas_loop_raises:
  assumes "\<forall>q \<in> set before. \<exists>r. read_qa wt tr v2 doc offsets q = Inr r"
    and "read_qa wt tr v2 doc offsets q = Inl err"
  shows "qas_loop wt tr v2 doc offsets (before @ q # rest) acc = Inl err"
  using assms(1)
proof (induction before arbitrary: acc)
  case Nil
  then show ?case using assms(2) by simp
next
  case (Cons x xs)
  from Cons.prems obtain r where r: "read_qa wt tr v2 doc offsets x = Inr r" by auto
  have rest: "\<forall>q \<in> set xs. \<exists>r. read_qa wt tr v2 doc offsets q = Inr r"
    using Cons.prems by simp
  show ?case
    using r Cons.IH[OF rest] by (cases r) simp_all
qed

lemma qas_loop_length:
  assumes "qas_loop wt tr v2 doc offsets qas [] = Inr out"
  shows "length out \<le> length qas"
proof -
  have ok: "\<forall>q \<in> set qas. \<exists>r. read_qa wt tr v2 doc offsets q = Inr r"
  proof (rule ccontr)
    assume "\<not> ?thesis"
    then obtain q where q: "q \<in> set qas" "\<forall>r. read_qa wt tr v2 doc offsets q \<noteq> Inr r"
      by auto
    define good where "good = takeWhile (\<lambda>x. \<exists>r. read_qa wt tr v2 doc offsets x = Inr r) qas"
    define bad where "bad = dropWhile (\<lambda>x. \<exists>r. read_qa wt tr v2 doc offsets x = Inr r) qas"
    have split: "qas = good @ bad" by (simp add: good_def bad_def)
    have nonempty: "bad \<noteq> []"
      using q unfolding bad_def by (auto simp: dropWhile_eq_Nil_conv)
    then obtain b bs where b: "bad = b # bs" by (cases bad) auto
    have "\<not> (\<exists>r. read_qa wt tr v2 doc offsets b = Inr r)"
      using hd_dropWhile[of "\<lambda>x. \<exists>r. read_qa wt tr v2 doc offsets x = Inr r" qas] nonempty b
      unfolding bad_def by auto
    then obtain err where err: "read_qa wt tr v2 doc offsets b = Inl err"
      by (cases "read_qa wt tr v2 doc offsets b") auto
    have goods: "\<forall>x \<in> set good. \<exists>r. read_qa wt tr v2 doc offsets x = Inr r"
      unfolding good_def by (auto dest: set_takeWhileD)
    have "qas_loop wt tr v2 doc offsets qas [] = Inl err"
      unfolding split b by (rule qas_loop_raises[OF goods err])
    with assms show False by simp
  qed
  have "out = List.map_filter (kept_example wt tr v2 doc offsets) qas"
    using qas_loop_collects[OF ok, of "[]"] assms by simp
  then show ?thesis
    by (simp add: List.map_filter_def)
qed

lemma passage_loop_never_raises:
  "\<exists>r. passage_loop (replace_nbsp passage_text) [] [] True = Inr r"
  by (rule passage_loop_returns) simp

lemma sample_passage_words:
  "passage_loop (replace_nbsp sample_passage) [] [] True =
     Inr ([map of_char ''the'', map of_char ''cat'', map of_char ''sat''],
          [0, 0, 0, 0, 1, 1, 1, 1, 2, 2, 2])"
  by (simp add: sample_passage_def replace_nbsp_def is_whitespace_def)

text \<open>
  Claim C8 at an answer that runs past the end of the passage. The passage is
  \<open>the cat sat\<close> (11 characters, the words \<open>the\<close>, \<open>cat\<close>, \<open>sat\<close>) and the first QA
  pair has the answer \<open>sat.\<close> at offset 8. The answer cannot be recovered: it is not a
  substring of the joined words of the passage, whatever the span. Its start offset
  indexes the map, its end offset \<open>8 + 4 - 1 = 11\<close> does not, and line 159 raises
  \<open>IndexError\<close> before the substring test of line 170 is reached. The pair is not
  dropped: the error ends the read of the whole file, and the second pair, which alone
  gives an example, gives none. (With the answer \<open>dog\<close> at offset 4, whose offsets index
  the map, the first pair is dropped and the second gives its example.)
\<close>

theorem read_entry_answer_past_passage_raises:
  "passage_loop (replace_nbsp sample_passage) [] [] True =
     Inr ([map of_char ''the'', map of_char ''cat'', map of_char ''sat''],
          [0, 0, 0, 0, 1, 1, 1, 1, 2, 2, 2]) \<and>
   \<not> sublist (join space ((\<lambda>t. [t]) (map of_char ''sat.'')))
       (join space [map of_char ''the'', map of_char ''cat'', map of_char ''sat'']) \<and>
   py_get [0, 0, 0, 0, 1, 1, 1, 1, 2, 2, 2 :: int] 8 = Inr 2 \<and>
   py_get [0, 0, 0, 0, 1, 1, 1, 1, 2, 2, 2 :: int] (8 + int (length (map of_char ''sat.'' :: pystr)) - 1)
     = Inl IndexError \<and>
   read_qa (\<lambda>t. [t]) True False
     [map of_char ''the'', map of_char ''cat'', map of_char ''sat'']
     [0, 0, 0, 0, 1, 1, 1, 1, 2, 2, 2]
     \<lparr>qa_id = map of_char ''p'', qa_query = map of_char ''who sat'',
      qa_answers = [\<lparr>answer_text = map of_char ''sat.'', answer_start = 8\<rparr>],
      qa_is_impossible = False\<rparr> = Inl IndexError \<and>
   read_entry (\<lambda>t. [t]) True False sample_passage
     [\<lparr>qa_id = map of_char ''p'', qa_query = map of_char ''who sat'',
       qa_answers = [\<lparr>answer_text = map of_char ''sat.'', answer_start = 8\<rparr>],
       qa_is_impossible = False\<rparr>,
      sample_qa (map of_char ''cat'')] [] = Inl IndexError \<and>
   read_entry (\<lambda>t. [t]) True False sample_passage [sample_qa (map of_char ''cat'')] [] =
     Inr [\<lparr>qas_id = map of_char ''q'', question_text = map of_char ''who sat'',
           example_doc_tokens = [map of_char ''the'', map of_char ''cat'', map of_char ''sat''],
           orig_answer_text = Some (map of_char ''cat''),
           word_start_position = Some 1, word_end_position = Some 1,
           answer_is_impossible = False\<rparr>] \<and>
   read_entry (\<lambda>t. [t]) True False sample_passage
     [sample_qa (map of_char ''dog''), sample_qa (map of_char ''cat'')] [] =
     Inr [\<lparr>qas_id = map of_char ''q'', question_text = map of_char ''who sat'',
           example_doc_tokens = [map of_char ''the'', map of_char ''cat'', map of_char ''sat''],
           orig_answer_text = Some (map of_char ''cat''),
           word_start_position = Some 1, word_end_position = Some 1,
           answer_is_impossible = False\<rparr>]"
proof -
  have words: "passage_loop (replace_nbsp sample_passage) [] [] True =
     Inr ([map of_char ''the'', map of_char ''cat'', map of_char ''sat''],
          [0, 0, 0, 0, 1, 1, 1, 1, 2, 2, 2])"
    by (simp add: sample_passage_def replace_nbsp_def is_whitespace_def)
  have lost: "\<not> sublist (join space ((\<lambda>t. [t]) (map of_char ''sat.'')))
       (join space [map of_char ''the'', map of_char ''cat'', map of_char ''sat''])"
    by (simp add: space_def sublist_Cons_right)
  have first: "py_get [0, 0, 0, 0, 1, 1, 1, 1, 2, 2, 2 :: int] 8 = Inr 2"
    by (simp add: py_get_def)
  have last: "py_get [0, 0, 0, 0, 1, 1, 1, 1, 2, 2, 2 :: int]
      (8 + int (length (map of_char ''sat.'' :: pystr)) - 1) = Inl IndexError"
    by (simp add: py_get_def)
  have pair: "read_qa (\<lambda>t. [t]) True False
     [map of_char ''the'', map of_char ''cat'', map of_char ''sat'']
     [0, 0, 0, 0, 1, 1, 1, 1, 2, 2, 2]
     \<lparr>qa_id = map of_char ''p'', qa_query = map of_char ''who sat'',
      qa_answers = [\<lparr>answer_text = map of_char ''sat.'', answer_start = 8\<rparr>],
      qa_is_impossible = False\<rparr> = Inl IndexError"
    by (simp add: read_qa_def py_get_def)
  have entry: "read_entry (\<lambda>t. [t]) True False sample_passage
     [\<lparr>qa_id = map of_char ''p'', qa_query = map of_char ''who sat'',
       qa_answers = [\<lparr>answer_text = map of_char ''sat.'', answer_start = 8\<rparr>],
       qa_is_impossible = False\<rparr>,
      sample_qa (map of_char ''cat'')] [] = Inl IndexError"
    unfolding read_entry_def words
    by (simp add: read_qa_def py_get_def)
  have alone: "read_entry (\<lambda>t. [t]) True False sample_passage
     [sample_qa (map of_char ''cat'')] [] =
     Inr [\<lparr>qas_id = map of_char ''q'', question_text = map of_char ''who sat'',
           example_doc_tokens = [map of_char ''the'', map of_char ''cat'', map of_char ''sat''],
           orig_answer_text = Some (map of_char ''cat''),
           word_start_position = Some 1, word_end_position = Some 1,
           answer_is_impossible = False\<rparr>]"
    unfolding read_entry_def words
    by (simp add: read_qa_def sample_qa_def py_get_def py_slice_def slice_index_def
        py_find_def space_def replace_nbsp_def)
  have dropped: "read_entry (\<lambda>t. [t]) True False sample_passage
     [sample_qa (map of_char ''dog''), sample_qa (map of_char ''cat'')] [] =
     Inr [\<lparr>qas_id = map of_char ''q'', question_text = map of_char ''who sat'',
           example_doc_tokens = [map of_char ''the'', map of_char ''cat'', map of_char ''sat''],
           orig_answer_text = Some (map of_char ''cat''),
           word_start_position = Some 1, word_end_position = Some 1,
           answer_is_impossible = False\<rparr>]"
    unfolding read_entry_def words
    by (simp add: read_qa_def sample_qa_def py_get_def py_slice_def slice_index_def
        py_find_def space_def replace_nbsp_def)
  show ?thesis
    using words lost first last pair entry alone dropped by (intro conjI)
qed

subsection \<open>Null-answer thresholding\<close>

lemma best_non_null_loop_kept:
  "best_non_null_loop nbest (Some b) = Some b"
  by (induction nbest) simp_all

lemma best_non_null_loop_find:
  "best_non_null_loop nbest None = find (\<lambda>entry. nbest_text entry \<noteq> []) nbest"
  by (induction nbest) (simp_all add: best_non_null_loop_kept)

text \<open>
  Where the n-best list has an entry with a non-empty text, the decoder decides by the
  threshold: with \<open>b\<close> the first such entry, it emits the empty string exactly when the
  float \<open>(score_null - start_logit) - end_logit\<close> exceeds the threshold, and the text of
  \<open>b\<close> otherwise.
\<close>

lemma predict_with_negative_threshold:
  assumes "find (\<lambda>entry. nbest_text entry \<noteq> []) nbest = Some b"
  shows "predict_with_negative nbest seen ns ne score_null threshold =
           Inr (if fl_gt (fl_sub (fl_sub score_null (start_logit b)) (end_logit b)) threshold
                then [] else nbest_text b) \<and>
         (predict_with_negative nbest seen ns ne score_null threshold = Inr [] \<longleftrightarrow>
            fl_gt (fl_sub (fl_sub score_null (start_logit b)) (end_logit b)) threshold)"
proof -
  have ne: "nbest \<noteq> []" using assms by auto
  have tb: "nbest_text b \<noteq> []" using assms by (auto simp: find_Some_iff)
  let ?null = "\<lparr>nbest_text = [], start_logit = ns, end_logit = ne\<rparr>"
  have "find (\<lambda>entry. nbest_text entry \<noteq> []) (nbest @ [?null]) = Some b"
    using assms by (simp add: find_append_cases)
  then have "predict_with_negative nbest seen ns ne score_null threshold =
      Inr (if fl_gt (fl_sub (fl_sub score_null (start_logit b)) (end_logit b)) threshold
           then [] else nbest_text b)"
    using assms ne
    by (simp add: predict_with_negative_def best_non_null_loop_find Let_def)
  then show ?thesis using tb by simp
qed

text \<open>
  Claim C6 at an example for which only the null entry reached the n-best list: with
  \<open>n_best_size = 1\<close> and a feature whose highest start logit (5.0) and end logit (5.0)
  are at position 0, the only candidate pair \<open>(0, 0)\<close> is filtered out (position 0 has
  no entry in \<open>token_to_orig_map\<close>), the null prediction gives the n-best entry with the
  empty text, and \<open>score_null = 10.0\<close>. The code then reads \<open>start_logit\<close> of \<open>None\<close> and
  raises instead of emitting an answer.
\<close>

theorem predict_with_negative_no_non_null_entry:
  "predict_with_negative
     [\<lparr>nbest_text = [], start_logit = Finite 5 0, end_logit = Finite 5 0\<rparr>] {[]}
     (Finite 5 0) (Finite 5 0) (Finite 10 0) (Finite 0 0)
     = Inl AttributeError"
  by (simp add: predict_with_negative_def)

text \<open>
  The example of the specification: \<open>score_null = 5.0\<close>, a best non-null entry with the
  logits 3.0 and 1.0, and the threshold 2.0 give the non-null text.
\<close>

lemma predict_with_negative_spec_example:
  "predict_with_negative
     [\<lparr>nbest_text = map of_char ''answer'', start_logit = Finite 3 0, end_logit = Finite 1 0\<rparr>,
      \<lparr>nbest_text = [], start_logit = Finite 2 0, end_logit = Finite 3 0\<rparr>]
     {map of_char ''answer'', []} (Finite 2 0) (Finite 3 0) (Finite 5 0) (Finite 2 0)
     = Inr (map of_char ''answer'')"
  by (simp add: predict_with_negative_def fl_sub_def float_eval_simps)

text \<open>
  Each difference is rounded: with \<open>score_null = 1.0\<close>, the logits \<open>1e16\<close> and \<open>-1e16\<close>
  and the threshold 0.0, \<open>1.0 - 1e16\<close> is the float \<open>-1e16\<close>, the score difference is
  0.0 and the non-null text is emitted, where the exact difference would be 1.
\<close>

lemma predict_with_negative_rounding_example:
  "fl_sub (Finite 1 0) (Finite 152587890625 16) = Finite (- 5000000000000000) 1 \<and>
   predict_with_negative
     [\<lparr>nbest_text = map of_char ''answer'', start_logit = Finite 152587890625 16,
       end_logit = Finite (- 152587890625) 16\<rparr>,
      \<lparr>nbest_text = [], start_logit = Finite 0 0, end_logit = Finite 0 0\<rparr>]
     {map of_char ''answer'', []} (Finite 0 0) (Finite 0 0) (Finite 1 0) (Finite 0 0)
     = Inr (map of_char ''answer'')"
  by (simp add: predict_with_negative_def fl_sub_def float_eval_simps)

subsection \<open>Text reprojection falls back to the original text\<close>

lemma strip_spaces_loop_chars:
  "fst (strip_spaces_loop xs ns m) = ns @ filter (\<lambda>c. c \<noteq> 32) (map snd xs)"
  by (induction xs arbitrary: ns m) auto

lemma strip_spaces_chars: "fst (strip_spaces t) = filter (\<lambda>c. c \<noteq> 32) t"
  by (simp add: strip_spaces_def strip_spaces_loop_chars)

lemma project_position_mapped:
  "project_position (invert_loop (snd (strip_spaces tok_text)) Map.empty)
     (snd (strip_spaces orig_text)) position =
   Inr (mapped_position tok_text orig_text position)"
  by (auto simp: project_position_def mapped_position_def dict_get_def dom_def
      split: option.splits)

text \<open>
  Claim C9. \<open>get_final_text\<close> never raises. It returns \<open>orig_text\<close> unchanged when
  \<open>pred_text\<close> is not a substring of the space-joined re-tokenization of \<open>orig_text\<close>,
  when the two texts without their spaces differ in length, or when the start or the
  end position has no entry in the position maps; when none of these holds it returns
  \<open>orig_text[orig_start : orig_end + 1]\<close> for the projected positions.
\<close>

theorem get_final_text_falls_back:
  fixes tokenize :: "pystr \<Rightarrow> pystr list" and pred_text orig_text :: pystr
  defines "tok_text \<equiv> join space (tokenize orig_text)"
  defines "start_pos \<equiv> py_find tok_text pred_text"
  defines "end_pos \<equiv> start_pos + int (length pred_text) - 1"
  defines "lengths_differ \<equiv>
     length (filter (\<lambda>c. c \<noteq> 32) orig_text) \<noteq> length (filter (\<lambda>c. c \<noteq> 32) tok_text)"
  shows "(\<exists>t. get_final_text tokenize pred_text orig_text = Inr t) \<and>
         (\<not> sublist pred_text tok_text \<longrightarrow>
            get_final_text tokenize pred_text orig_text = Inr orig_text) \<and>
         (lengths_differ \<longrightarrow> get_final_text tokenize pred_text orig_text = Inr orig_text) \<and>
         (mapped_position tok_text orig_text start_pos = None \<or>
          mapped_position tok_text orig_text end_pos = None \<longrightarrow>
            get_final_text tokenize pred_text orig_text = Inr orig_text) \<and>
         (\<forall>orig_start orig_end.
            sublist pred_text tok_text \<and> \<not> lengths_differ \<and>
            mapped_position tok_text orig_text start_pos = Some orig_start \<and>
            mapped_position tok_text orig_text end_pos = Some orig_end \<longrightarrow>
            get_final_text tokenize pred_text orig_text =
              Inr (py_slice orig_text orig_start (orig_end + 1)))"
proof -
  let ?r = "get_final_text tokenize pred_text orig_text"
  have run: "?r =
      (if \<not> sublist pred_text tok_text then Inr orig_text
       else if lengths_differ then Inr orig_text
       else (case mapped_position tok_text orig_text start_pos of
               None \<Rightarrow> Inr orig_text
             | Some orig_start \<Rightarrow>
                 (case mapped_position tok_text orig_text end_pos of
                    None \<Rightarrow> Inr orig_text
                  | Some orig_end \<Rightarrow> Inr (py_slice orig_text orig_start (orig_end + 1)))))"
    unfolding get_final_text_def Let_def project_position_mapped strip_spaces_chars
      tok_text_def start_pos_def end_pos_def lengths_differ_def
    by (simp add: py_find_not_found split: option.split)
  have total: "\<exists>t. ?r = Inr t"
    unfolding run by (simp split: option.split)
  have notfound: "\<not> sublist pred_text tok_text \<longrightarrow> ?r = Inr orig_text"
    unfolding run by simp
  have differ: "lengths_differ \<longrightarrow> ?r = Inr orig_text"
    unfolding run by simp
  have unmapped: "mapped_position tok_text orig_text start_pos = None \<or>
      mapped_position tok_text orig_text end_pos = None \<longrightarrow> ?r = Inr orig_text"
    unfolding run by (simp split: option.split)
  have projected: "\<forall>orig_start orig_end.
      sublist pred_text tok_text \<and> \<not> lengths_differ \<and>
      mapped_position tok_text orig_text start_pos = Some orig_start \<and>
      mapped_position tok_text orig_text end_pos = Some orig_end \<longrightarrow>
      ?r = Inr (py_slice orig_text orig_start (orig_end + 1))"
    unfolding run by simp
  show ?thesis
    using total notfound differ unmapped projected by (intro conjI)
qed

text \<open>
  The specification's example: \<open>pred_text = "steve smith"\<close> and
  \<open>orig_text = "Steve Smith's"\<close>, which the lower-casing tokenizer splits into \<open>steve\<close>,
  \<open>smith\<close>, \<open>'\<close> and \<open>s\<close>, give \<open>"Steve Smith"\<close>.
\<close>

theorem get_final_text_falls_back_witness:
  "sublist (map of_char ''steve smith'')
     (join space ((\<lambda>t. [map of_char ''steve'', map of_char ''smith'', [39], [115]])
        (map of_char ''Steve Smith'' @ [39, 115]))) \<and>
   mapped_position
     (join space ((\<lambda>t. [map of_char ''steve'', map of_char ''smith'', [39], [115]])
        (map of_char ''Steve Smith'' @ [39, 115])))
     (map of_char ''Steve Smith'' @ [39, 115]) 10 = Some 10 \<and>
   get_final_text (\<lambda>t. [map of_char ''steve'', map of_char ''smith'', [39], [115]])
     (map of_char ''steve smith'') (map of_char ''Steve Smith'' @ [39, 115]) =
   Inr (map of_char ''Steve Smith'')"
proof -
  let ?tokenize = "\<lambda>t::pystr. [map of_char ''steve'', map of_char ''smith'', [39], [115::nat]]"
  let ?pred = "map of_char ''steve smith'' :: pystr"
  let ?orig = "map of_char ''Steve Smith'' @ [39, 115] :: pystr"
  let ?tok = "join space (?tokenize ?orig)"
  have found: "sublist ?pred ?tok"
    by (simp add: space_def sublist_Cons_right)
  have start: "py_find ?tok ?pred = 0"
    by (simp add: py_find_def space_def)
  have same: "\<not> length (filter (\<lambda>c. c \<noteq> 32) ?orig) \<noteq> length (filter (\<lambda>c. c \<noteq> 32) ?tok)"
    by (simp add: space_def)
  have m0: "mapped_position ?tok ?orig (py_find ?tok ?pred) = Some 0"
    unfolding start by (simp add: mapped_position_def strip_spaces_def space_def)
  have m10: "mapped_position ?tok ?orig (py_find ?tok ?pred + int (length ?pred) - 1) = Some 10"
    unfolding start by (simp add: mapped_position_def strip_spaces_def space_def)
  note t = get_final_text_falls_back[where tokenize = ?tokenize and pred_text = ?pred
      and orig_text = ?orig, THEN conjunct2, THEN conjunct2, THEN conjunct2, THEN conjunct2,
      rule_format, of 0 10]
  have "get_final_text ?tokenize ?pred ?orig = Inr (py_slice ?orig 0 (10 + 1))"
    by (rule t) (intro conjI found same m0 m10)
  moreover have "py_slice ?orig 0 (10 + 1) = map of_char ''Steve Smith''"
    by (simp add: py_slice_def slice_index_def)
  moreover have "mapped_position ?tok ?orig 10 = Some 10"
    using m10 unfolding start by simp
  ultimately show ?thesis using found by simp
qed

end
